theory Spec2Isabelle
  imports Main "HOL-Library.AList" "HOL-Library.Product_Lexorder" "HOL-Library.Sublist" "HOL-Library.Multiset"
begin

section \<open>JavaScript values\<close>

text \<open>
  The data layer stores JSON-shaped documents. A value is \<open>null\<close>, a boolean, a number, a
  string, an array or an object; an object is the list of its own properties in insertion
  order. The TypeScript types of the entities are erased at run time: an entity is the
  object with whatever properties it has. \<open>undefined\<close> is not a stored value: reading a property an object does not have
  gives \<open>None\<close>. The program's numbers are IEEE 754 doubles; the ones it stores are counts
  and millisecond timestamps, and \<open>JNum n\<close> is the double whose value is the integer \<open>n\<close>.
  Fractions, \<open>NaN\<close> and the infinities are not values of the model, and it prints a number
  with all its digits, as the program does below \<open>10^21\<close>.
\<close>

datatype jsval =
    JNull
  | JBool bool
  | JNum int
  | JStr string
  | JArr "jsval list"
  | JObj "(string \<times> jsval) list"

type_synonym entity = "(string \<times> jsval) list"

text \<open>\<^verbatim>\<open>obj.k\<close>: the property, or \<open>undefined\<close>.\<close>

definition js_get :: "entity \<Rightarrow> string \<Rightarrow> jsval option" where
  "js_get obj k = map_of obj k"

text \<open>JavaScript's \<open>ToBoolean\<close>.\<close>

fun truthy :: "jsval option \<Rightarrow> bool" where
  "truthy None = False"
| "truthy (Some JNull) = False"
| "truthy (Some (JBool b)) = b"
| "truthy (Some (JNum n)) = (n \<noteq> 0)"
| "truthy (Some (JStr s)) = (s \<noteq> [])"
| "truthy (Some (JArr xs)) = True"
| "truthy (Some (JObj kvs)) = True"

text \<open>\<^verbatim>\<open>a || b\<close> with \<open>b\<close> a defined value.\<close>

definition js_or :: "jsval option \<Rightarrow> jsval \<Rightarrow> jsval" where
  "js_or a b = (case a of None \<Rightarrow> b | Some v \<Rightarrow> if truthy a then v else b)"

fun digits :: "nat \<Rightarrow> string" where
  "digits n = (if n < 10 then [''0123456789'' ! n]
               else digits (n div 10) @ [''0123456789'' ! (n mod 10)])"

declare digits.simps [simp del]

definition join :: "string \<Rightarrow> string list \<Rightarrow> string" where
  "join sep xs = (case xs of [] \<Rightarrow> [] | y # ys \<Rightarrow> y @ concat (map (\<lambda>z. sep @ z) ys))"

text \<open>
  \<open>ToString\<close>: an array joins its elements with commas, \<open>null\<close> elements as the empty
  string; a plain object is \<^verbatim>\<open>[object Object]\<close>.
\<close>

fun js_toString :: "jsval \<Rightarrow> string" where
  "js_toString JNull = ''null''"
| "js_toString (JBool b) = (if b then ''true'' else ''false'')"
| "js_toString (JNum n) = (if n < 0 then CHR ''-'' # digits (nat (- n)) else digits (nat n))"
| "js_toString (JStr s) = s"
| "js_toString (JArr xs) = join '','' (map (\<lambda>x. if x = JNull then [] else js_toString x) xs)"
| "js_toString (JObj kvs) = ''[object Object]''"

fun js_toNumber :: "jsval \<Rightarrow> int" where
  "js_toNumber (JNum n) = n"
| "js_toNumber (JBool b) = (if b then 1 else 0)"
| "js_toNumber v = 0"

fun is_numeric :: "jsval \<Rightarrow> bool" where
  "is_numeric JNull = True"
| "is_numeric (JBool b) = True"
| "is_numeric (JNum n) = True"
| "is_numeric v = False"

text \<open>
  A double has 53 significant bits, so not every integer is one: every integer up to
  \<open>2^53\<close> in magnitude is, and above that only the multiples of a power of two.
  \<open>bit_length m\<close> is the number of binary digits of \<open>m\<close>, and \<open>round_double x\<close> is the
  double nearest to the integer \<open>x\<close>, the one with an even significand when two are equally
  near: the result of an arithmetic operation whose exact value is \<open>x\<close> (below the
  overflow threshold \<open>2^1024\<close>).
\<close>

fun bit_length :: "nat \<Rightarrow> nat" where
  "bit_length n = (if n = 0 then 0 else Suc (bit_length (n div 2)))"

declare bit_length.simps [simp del]

definition round_double :: "int \<Rightarrow> int" where
  "round_double x =
     (let m = nat \<bar>x\<bar>;
          e = bit_length m - 53;
          q = m div 2 ^ e;
          r = m mod 2 ^ e;
          q' = (if 2 * r > 2 ^ e \<or> (2 * r = 2 ^ e \<and> odd q) then q + 1 else q)
      in sgn x * int (q' * 2 ^ e))"

text \<open>
  \<^verbatim>\<open>a + b\<close>: the addition of doubles when both operands are \<open>null\<close>, booleans or
  numbers (the exact sum, rounded), and string concatenation as soon as one is a string, an
  array or an object.
\<close>

definition js_plus :: "jsval \<Rightarrow> jsval \<Rightarrow> jsval" where
  "js_plus a b =
     (if is_numeric a \<and> is_numeric b then JNum (round_double (js_toNumber a + js_toNumber b))
      else JStr (js_toString a @ js_toString b))"

text \<open>
  Copying the own properties of \<open>source\<close> onto \<open>target\<close>, as the spread \<^verbatim>\<open>{...a, ...b}\<close>
  does onto a fresh object: a key already there keeps its place and takes the new value, a
  new key goes to the end.
\<close>

definition assign :: "entity \<Rightarrow> entity \<Rightarrow> entity" where
  "assign target source = fold (\<lambda>(k, v). AList.update k v) source target"

text \<open>\<^verbatim>\<open>Array.prototype.findIndex\<close>, with \<open>None\<close> for \<open>-1\<close>.\<close>

fun findIndex :: "('a \<Rightarrow> bool) \<Rightarrow> 'a list \<Rightarrow> nat option" where
  "findIndex P [] = None"
| "findIndex P (x # xs) = (if P x then Some 0 else map_option Suc (findIndex P xs))"

text \<open>\<^verbatim>\<open>xs.slice(-n)\<close>: the last \<open>n\<close> elements, all of them when there are fewer.\<close>

definition slice_last :: "nat \<Rightarrow> 'a list \<Rightarrow> 'a list" where
  "slice_last n xs = drop (length xs - n) xs"

text \<open>
  \<^verbatim>\<open>Array.prototype.sort(compare)\<close> is stable, and reads a comparator result that is
  \<open>NaN\<close> (here \<open>None\<close>) as \<open>0\<close>. The model is the stable insertion sort: an element
  goes in front of the first later element it does not have to follow. For a comparator that
  is a consistent ordering every stable sort gives this same list; for another comparator
  the language leaves the order to the implementation.
\<close>

definition not_after :: "('a \<Rightarrow> 'a \<Rightarrow> int option) \<Rightarrow> 'a \<Rightarrow> 'a \<Rightarrow> bool" where
  "not_after compare a b = (case compare a b of None \<Rightarrow> True | Some c \<Rightarrow> c \<le> 0)"

fun insert_sorted :: "('a \<Rightarrow> 'a \<Rightarrow> int option) \<Rightarrow> 'a \<Rightarrow> 'a list \<Rightarrow> 'a list" where
  "insert_sorted compare x [] = [x]"
| "insert_sorted compare x (y # ys) =
     (if not_after compare x y then x # y # ys else y # insert_sorted compare x ys)"

definition js_sort :: "('a \<Rightarrow> 'a \<Rightarrow> int option) \<Rightarrow> 'a list \<Rightarrow> 'a list" where
  "js_sort compare xs = foldr (insert_sorted compare) xs []"

section \<open>The record store\<close>

text \<open>
  A collection document is an object with one property that holds the sequence of
  entities, \<^verbatim>\<open>{ profiles: [...] }\<close>: the type every call site gives to \<^verbatim>\<open>readData\<close> and
  \<^verbatim>\<open>writeData\<close>. \<open>doc_get\<close> is the property access \<^verbatim>\<open>data.key\<close>.
\<close>

datatype document = Doc (doc_key: string) (doc_items: "entity list")

definition doc_get :: "document \<Rightarrow> string \<Rightarrow> entity list option" where
  "doc_get d k = (if doc_key d = k then Some (doc_items d) else None)"

datatype error = SyntaxError | TypeError

datatype kv_reply = KvError | KvValue "document option"

text \<open>
  What the module takes from its surroundings: the flag computed once from
  \<^verbatim>\<open>process.env\<close>, whether \<^verbatim>\<open>require('@vercel/kv')\<close> gave a client, the data
  directory, and the runtime's \<^verbatim>\<open>JSON.stringify(_, null, 2)\<close>, \<^verbatim>\<open>JSON.parse\<close>
  (\<open>None\<close> when it throws) and \<^verbatim>\<open>new Date(_).getTime()\<close> (\<open>None\<close> for \<open>NaN\<close>), and the
  answer of the remote \<^verbatim>\<open>kv.get\<close>. The theorems hold for every such environment.
\<close>

record env =
  isVercel :: bool
  kv :: bool
  DATA_DIR :: string
  JSON_stringify :: "document \<Rightarrow> string"
  JSON_parse :: "string \<Rightarrow> document option"
  Date_getTime :: "jsval option \<Rightarrow> int option"
  kv_get :: "string \<Rightarrow> kv_reply"

text \<open>
  The mutable state: the module's \<^verbatim>\<open>memoryStore\<close> map, the files of the data directory
  by path, whether the data directory exists, and the calls of \<^verbatim>\<open>writeDataAsync\<close> that
  \<^verbatim>\<open>writeData\<close> has started and not awaited.
\<close>

record store =
  memoryStore :: "string \<rightharpoonup> document"
  files :: "string \<rightharpoonup> string"
  dataDir :: bool
  background :: "(string \<times> document) list"

text \<open>\<^verbatim>\<open>fs\<close> and \<^verbatim>\<open>path\<close> are loaded exactly when the process is not on Vercel.\<close>

definition fs :: "env \<Rightarrow> bool" where
  "fs e = (\<not> isVercel e)"

definition ensureDataDir :: "env \<Rightarrow> store \<Rightarrow> store" where
  "ensureDataDir e st =
     (if \<not> isVercel e \<and> fs e \<and> \<not> dataDir st then st\<lparr>dataDir := True\<rparr> else st)"

text \<open>
  \<^verbatim>\<open>path.join(DATA_DIR, `${name}.json`)\<close>, for a name that is a file name (the module
  uses \<open>users\<close>, \<open>profiles\<close>, \<open>posts\<close>, \<open>chat\<close> and \<open>votes\<close>).
\<close>

definition getFilePath :: "env \<Rightarrow> string \<Rightarrow> string" where
  "getFilePath e name = (if \<not> fs e then [] else DATA_DIR e @ ''/'' @ name @ ''.json'')"

text \<open>
  \<^verbatim>\<open>readData\<close>, the synchronous read. On Vercel it is
  \<^verbatim>\<open>memoryStore.get(name) || defaultValue\<close>; a document is an object, hence truthy, so
  the default is taken exactly when the map has no entry. Locally a missing file is
  created with the default, and an existing one is parsed; a parse error is thrown.
\<close>

definition readData :: "env \<Rightarrow> store \<Rightarrow> string \<Rightarrow> document \<Rightarrow> error + document \<times> store" where
  "readData e st name defaultValue =
     (if isVercel e then
        Inr (case memoryStore st name of Some d \<Rightarrow> d | None \<Rightarrow> defaultValue, st)
      else if fs e then
        (let st1 = ensureDataDir e st; filePath = getFilePath e name in
         case files st1 filePath of
           None \<Rightarrow>
             Inr (defaultValue,
                  st1\<lparr>files := (files st1)(filePath \<mapsto> JSON_stringify e defaultValue)\<rparr>)
         | Some content \<Rightarrow>
             (case JSON_parse e content of
                None \<Rightarrow> Inl SyntaxError
              | Some d \<Rightarrow> Inr (d, st1)))
      else Inr (defaultValue, st))"

text \<open>
  \<^verbatim>\<open>readDataAsync\<close>, run to completion: the remote store when there is a client (its
  error is caught and answered from the cache), the file locally.
\<close>

definition readDataAsync :: "env \<Rightarrow> store \<Rightarrow> string \<Rightarrow> document \<Rightarrow> error + document \<times> store" where
  "readDataAsync e st name defaultValue =
     (if isVercel e \<and> kv e then
        (case kv_get e name of
           KvValue d \<Rightarrow> Inr (case d of Some v \<Rightarrow> v | None \<Rightarrow> defaultValue, st)
         | KvError \<Rightarrow>
             Inr (case memoryStore st name of Some v \<Rightarrow> v | None \<Rightarrow> defaultValue, st))
      else if fs e then
        (let st1 = ensureDataDir e st; filePath = getFilePath e name in
         case files st1 filePath of
           None \<Rightarrow>
             Inr (defaultValue,
                  st1\<lparr>files := (files st1)(filePath \<mapsto> JSON_stringify e defaultValue)\<rparr>)
         | Some content \<Rightarrow>
             (case JSON_parse e content of
                None \<Rightarrow> Inl SyntaxError
              | Some d \<Rightarrow> Inr (d, st1)))
      else Inr (case memoryStore st name of Some v \<Rightarrow> v | None \<Rightarrow> defaultValue, st))"

text \<open>
  \<^verbatim>\<open>writeData\<close>. On Vercel the cache is set at once and \<^verbatim>\<open>writeDataAsync(name, data)\<close>
  is started without being awaited: the started call is recorded in \<open>background\<close>, and
  what it does after the caller has returned (the remote write, then a second
  \<^verbatim>\<open>memoryStore.set(name, data)\<close>) is outside this synchronous model. Locally the file is
  overwritten.
\<close>

definition writeData :: "env \<Rightarrow> store \<Rightarrow> string \<Rightarrow> document \<Rightarrow> store" where
  "writeData e st name dat =
     (if isVercel e then
        st\<lparr>memoryStore := (memoryStore st)(name \<mapsto> dat),
           background := background st @ [(name, dat)]\<rparr>
      else if fs e then
        (let st1 = ensureDataDir e st in
         st1\<lparr>files := (files st1)(getFilePath e name \<mapsto> JSON_stringify e dat)\<rparr>)
      else st\<lparr>memoryStore := (memoryStore st)(name \<mapsto> dat)\<rparr>)"

section \<open>Collection repositories\<close>

text \<open>
  Every operation reads its collection document, works on the sequence and, when it
  changes something, writes the whole document back. Calling an array method on a
  property the document does not have throws a \<open>TypeError\<close>. The store is passed in and
  returned; \<open>now\<close> is the value of \<^verbatim>\<open>new Date().toISOString()\<close> at the call.
\<close>

definition has_id :: "string \<Rightarrow> entity \<Rightarrow> bool" where
  "has_id i p = (js_get p ''id'' = Some (JStr i))"

definition getAllProfiles :: "env \<Rightarrow> store \<Rightarrow> error + entity list option \<times> store" where
  "getAllProfiles e st =
     (case readData e st ''profiles'' (Doc ''profiles'' []) of
        Inl err \<Rightarrow> Inl err
      | Inr (dat, st1) \<Rightarrow> Inr (doc_get dat ''profiles'', st1))"

definition getProfileById :: "env \<Rightarrow> store \<Rightarrow> string \<Rightarrow> error + entity option \<times> store" where
  "getProfileById e st i =
     (case getAllProfiles e st of
        Inl err \<Rightarrow> Inl err
      | Inr (None, st1) \<Rightarrow> Inl TypeError
      | Inr (Some profiles, st1) \<Rightarrow> Inr (find (has_id i) profiles, st1))"

definition updateProfile ::
  "env \<Rightarrow> store \<Rightarrow> string \<Rightarrow> string \<Rightarrow> entity \<Rightarrow> error + entity option \<times> store" where
  "updateProfile e st now i updates =
     (case readData e st ''profiles'' (Doc ''profiles'' []) of
        Inl err \<Rightarrow> Inl err
      | Inr (dat, st1) \<Rightarrow>
          (case doc_get dat ''profiles'' of
             None \<Rightarrow> Inl TypeError
           | Some profiles \<Rightarrow>
               (case findIndex (has_id i) profiles of
                  None \<Rightarrow> Inr (None, st1)
                | Some index \<Rightarrow>
                    (let merged = AList.update ''updatedAt'' (JStr now)
                                    (assign (assign [] (profiles ! index)) updates);
                         profiles' = profiles[index := merged]
                     in Inr (Some (profiles' ! index),
                             writeData e st1 ''profiles'' (Doc ''profiles'' profiles'))))))"

definition deleteProfile :: "env \<Rightarrow> store \<Rightarrow> string \<Rightarrow> error + bool \<times> store" where
  "deleteProfile e st i =
     (case readData e st ''profiles'' (Doc ''profiles'' []) of
        Inl err \<Rightarrow> Inl err
      | Inr (dat, st1) \<Rightarrow>
          (case doc_get dat ''profiles'' of
             None \<Rightarrow> Inl TypeError
           | Some profiles \<Rightarrow>
               (let filtered = filter (\<lambda>p. \<not> has_id i p) profiles in
                if length filtered = length profiles then Inr (False, st1)
                else Inr (True, writeData e st1 ''profiles'' (Doc ''profiles'' filtered)))))"

text \<open>
  \<^verbatim>\<open>getAllPosts\<close> sorts \<^verbatim>\<open>data.posts\<close> in place. On Vercel, \<open>data\<close> is the cached
  object itself when the cache has one, so the cached sequence is left sorted; locally
  \<open>data\<close> is a fresh parse.
\<close>

definition is_pinned :: "entity \<Rightarrow> bool" where
  "is_pinned p = truthy (js_get p ''isPinned'')"

definition created :: "env \<Rightarrow> entity \<Rightarrow> int option" where
  "created e p = Date_getTime e (js_get p ''createdAt'')"

definition post_compare :: "env \<Rightarrow> entity \<Rightarrow> entity \<Rightarrow> int option" where
  "post_compare e a b =
     (if is_pinned a \<and> \<not> is_pinned b then Some (- 1)
      else if \<not> is_pinned a \<and> is_pinned b then Some 1
      else (case (created e b, created e a) of
              (Some tb, Some ta) \<Rightarrow> Some (tb - ta)
            | _ \<Rightarrow> None))"

definition getAllPosts :: "env \<Rightarrow> store \<Rightarrow> error + entity list \<times> store" where
  "getAllPosts e st =
     (case readData e st ''posts'' (Doc ''posts'' []) of
        Inl err \<Rightarrow> Inl err
      | Inr (dat, st1) \<Rightarrow>
          (case doc_get dat ''posts'' of
             None \<Rightarrow> Inl TypeError
           | Some posts \<Rightarrow>
               (let sorted_posts = js_sort (post_compare e) posts in
                Inr (sorted_posts,
                     if isVercel e \<and> memoryStore st1 ''posts'' \<noteq> None
                     then st1\<lparr>memoryStore := (memoryStore st1)(''posts'' \<mapsto> Doc ''posts'' sorted_posts)\<rparr>
                     else st1))))"

definition deletePost :: "env \<Rightarrow> store \<Rightarrow> string \<Rightarrow> error + bool \<times> store" where
  "deletePost e st i =
     (case readData e st ''posts'' (Doc ''posts'' []) of
        Inl err \<Rightarrow> Inl err
      | Inr (dat, st1) \<Rightarrow>
          (case doc_get dat ''posts'' of
             None \<Rightarrow> Inl TypeError
           | Some posts \<Rightarrow>
               (let filtered = filter (\<lambda>p. \<not> has_id i p) posts in
                if length filtered = length posts then Inr (False, st1)
                else Inr (True, writeData e st1 ''posts'' (Doc ''posts'' filtered)))))"

definition likePost :: "env \<Rightarrow> store \<Rightarrow> string \<Rightarrow> error + entity option \<times> store" where
  "likePost e st i =
     (case readData e st ''posts'' (Doc ''posts'' []) of
        Inl err \<Rightarrow> Inl err
      | Inr (dat, st1) \<Rightarrow>
          (case doc_get dat ''posts'' of
             None \<Rightarrow> Inl TypeError
           | Some posts \<Rightarrow>
               (case findIndex (has_id i) posts of
                  None \<Rightarrow> Inr (None, st1)
                | Some index \<Rightarrow>
                    (let post = posts ! index;
                         liked = AList.update ''likes''
                                   (js_plus (js_or (js_get post ''likes'') (JNum 0)) (JNum 1)) post;
                         posts' = posts[index := liked]
                     in Inr (Some (posts' ! index),
                             writeData e st1 ''posts'' (Doc ''posts'' posts'))))))"

definition addChatMessage :: "env \<Rightarrow> store \<Rightarrow> entity \<Rightarrow> error + entity \<times> store" where
  "addChatMessage e st message =
     (case readData e st ''chat'' (Doc ''messages'' []) of
        Inl err \<Rightarrow> Inl err
      | Inr (dat, st1) \<Rightarrow>
          (case doc_get dat ''messages'' of
             None \<Rightarrow> Inl TypeError
           | Some messages \<Rightarrow>
               (let pushed = messages @ [message];
                    kept = (if length pushed > 500 then slice_last 500 pushed else pushed)
                in Inr (message, writeData e st1 ''chat'' (Doc ''messages'' kept)))))"

definition getVotes :: "env \<Rightarrow> store \<Rightarrow> error + entity list option \<times> store" where
  "getVotes e st =
     (case readData e st ''votes'' (Doc ''votes'' []) of
        Inl err \<Rightarrow> Inl err
      | Inr (dat, st1) \<Rightarrow> Inr (doc_get dat ''votes'', st1))"

definition getVotesForProfile :: "env \<Rightarrow> store \<Rightarrow> string \<Rightarrow> error + nat \<times> store" where
  "getVotesForProfile e st profileId =
     (case getVotes e st of
        Inl err \<Rightarrow> Inl err
      | Inr (None, st1) \<Rightarrow> Inl TypeError
      | Inr (Some votes, st1) \<Rightarrow>
          Inr (length (filter (\<lambda>v. js_get v ''profileId'' = Some (JStr profileId)) votes), st1))"

text \<open>
  \<^verbatim>\<open>votes.some(v => v.voterId === visitorId && v.profileId === profileId &&
  v.createdAt.startsWith(today))\<close>: the scan stops at the first vote that satisfies all
  three; \<^verbatim>\<open>startsWith\<close> is called only on a vote of that voter for that profile, and
  throws when its \<open>createdAt\<close> is not a string.
\<close>

fun some_vote_today :: "string \<Rightarrow> string \<Rightarrow> string \<Rightarrow> entity list \<Rightarrow> error + bool" where
  "some_vote_today visitorId profileId today [] = Inr False"
| "some_vote_today visitorId profileId today (v # vs) =
     (if js_get v ''voterId'' = Some (JStr visitorId) \<and> js_get v ''profileId'' = Some (JStr profileId)
      then (case js_get v ''createdAt'' of
              Some (JStr s) \<Rightarrow>
                if prefix today s then Inr True
                else some_vote_today visitorId profileId today vs
            | _ \<Rightarrow> Inl TypeError)
      else some_vote_today visitorId profileId today vs)"

text \<open>\<^verbatim>\<open>new Date().toISOString().split('T')[0]\<close>: the text before the first \<open>T\<close>.\<close>

definition today_of :: "string \<Rightarrow> string" where
  "today_of now = takeWhile (\<lambda>c. c \<noteq> CHR ''T'') now"

definition hasVotedToday :: "env \<Rightarrow> store \<Rightarrow> string \<Rightarrow> string \<Rightarrow> string \<Rightarrow> error + bool \<times> store" where
  "hasVotedToday e st now visitorId profileId =
     (case getVotes e st of
        Inl err \<Rightarrow> Inl err
      | Inr (None, st1) \<Rightarrow> Inl TypeError
      | Inr (Some votes, st1) \<Rightarrow>
          (case some_vote_today visitorId profileId (today_of now) votes of
             Inl err \<Rightarrow> Inl err
           | Inr b \<Rightarrow> Inr (b, st1)))"

section \<open>Derived-state helpers\<close>

text \<open>
  \<^verbatim>\<open>calculateRank(votes: number): Rank\<close> walks a fixed table of thresholds from the
  highest down. \<^verbatim>\<open>Rank\<close> is a union of string literals, so the result is the
  string itself. The vote count is an integer.
\<close>

definition calculateRank :: "int \<Rightarrow> string" where
  "calculateRank votes =
     (if votes \<ge> 1000 then ''legend''
      else if votes \<ge> 500 then ''master''
      else if votes \<ge> 200 then ''diamond''
      else if votes \<ge> 100 then ''platinum''
      else if votes \<ge> 50 then ''gold''
      else if votes \<ge> 20 then ''silver''
      else ''bronze'')"

definition updateProfileVotesAndRank ::
  "env \<Rightarrow> store \<Rightarrow> string \<Rightarrow> string \<Rightarrow> error + entity option \<times> store" where
  "updateProfileVotesAndRank e st now profileId =
     (case getVotesForProfile e st profileId of
        Inl err \<Rightarrow> Inl err
      | Inr (votes, st1) \<Rightarrow>
          (let rank = calculateRank (int votes) in
           updateProfile e st1 now profileId
             [(''votes'', JNum (int votes)), (''rank'', JStr rank)]))"

section \<open>Notions the theorems use\<close>

text \<open>
  \<open>json_safe e D\<close>: the runtime's JSON text of \<open>D\<close> parses back to \<open>D\<close>.
  \<open>holds e st name D\<close>: the store holds \<open>D\<close> for the collection, as the cache entry on
  Vercel and as the content of the collection's file locally.
  \<open>is_object obj\<close>: the property list names every key once, as an object does.
\<close>

definition json_safe :: "env \<Rightarrow> document \<Rightarrow> bool" where
  "json_safe e D = (JSON_parse e (JSON_stringify e D) = Some D)"

definition holds :: "env \<Rightarrow> store \<Rightarrow> string \<Rightarrow> document \<Rightarrow> bool" where
  "holds e st name D =
     (if isVercel e then memoryStore st name = Some D
      else files st (getFilePath e name) = Some (JSON_stringify e D))"

definition is_object :: "entity \<Rightarrow> bool" where
  "is_object obj = distinct (map fst obj)"

text \<open>
  \<open>vote_matches V P today v\<close>: the vote \<open>v\<close> is by \<open>V\<close> for \<open>P\<close>, and the first characters
  of its \<open>createdAt\<close> text, as many as the date has, are the date.
\<close>

definition vote_matches :: "string \<Rightarrow> string \<Rightarrow> string \<Rightarrow> entity \<Rightarrow> bool" where
  "vote_matches visitorId profileId today v =
     (js_get v ''voterId'' = Some (JStr visitorId) \<and>
      js_get v ''profileId'' = Some (JStr profileId) \<and>
      (\<exists>s. js_get v ''createdAt'' = Some (JStr s) \<and> take (length today) s = today))"

text \<open>
  A caller that inserts messages one after another, stopping at the first error: the
  retention scenario.
\<close>

fun addChatMessages :: "env \<Rightarrow> store \<Rightarrow> entity list \<Rightarrow> error + store" where
  "addChatMessages e st [] = Inr st"
| "addChatMessages e st (m # ms) =
     (case addChatMessage e st m of
        Inl err \<Rightarrow> Inl err
      | Inr (added, st') \<Rightarrow> addChatMessages e st' ms)"

text \<open>
  \<open>newer e a b\<close>: both posts have a valid timestamp and \<open>a\<close>'s is not before \<open>b\<close>'s.
  \<open>post_key\<close> is the sort key the comparator of \<^verbatim>\<open>getAllPosts\<close> amounts to on posts
  with valid timestamps: unpinned after pinned, then later timestamps first.
\<close>

definition post_key :: "env \<Rightarrow> entity \<Rightarrow> bool \<times> int" where
  "post_key e p = (\<not> is_pinned p, - the (created e p))"

definition newer :: "env \<Rightarrow> entity \<Rightarrow> entity \<Rightarrow> bool" where
  "newer e a b = (\<exists>ta tb. created e a = Some ta \<and> created e b = Some tb \<and> tb \<le> ta)"

section \<open>A runtime to run the model on\<close>

text \<open>
  The theorems hold for every environment. To evaluate the model on concrete stores, this
  section gives one: the text \<^verbatim>\<open>JSON.stringify(_, null, 2)\<close> prints for the values
  above (two-space indentation, \<^verbatim>\<open>key: value\<close> members, escaped strings), a parser for
  JSON text whose numbers are integers (read as the nearest double), and the time value of the 24-character ISO text
  that \<^verbatim>\<open>toISOString\<close> produces.
\<close>

subsection \<open>JSON text\<close>

definition hex_digit :: "nat \<Rightarrow> char" where
  "hex_digit n = ''0123456789abcdef'' ! n"

definition escape_char :: "char \<Rightarrow> string" where
  "escape_char c =
     (if c = CHR 0x22 then [CHR 0x5C, CHR 0x22]
      else if c = CHR 0x5C then [CHR 0x5C, CHR 0x5C]
      else if c = CHR 0x08 then [CHR 0x5C, CHR ''b'']
      else if c = CHR 0x09 then [CHR 0x5C, CHR ''t'']
      else if c = CHR 0x0A then [CHR 0x5C, CHR ''n'']
      else if c = CHR 0x0C then [CHR 0x5C, CHR ''f'']
      else if c = CHR 0x0D then [CHR 0x5C, CHR ''r'']
      else if of_char c < (32::nat)
        then [CHR 0x5C, CHR ''u'', CHR ''0'', CHR ''0'',
              hex_digit (of_char c div 16), hex_digit (of_char c mod 16)]
      else [c])"

definition quote :: "string \<Rightarrow> string" where
  "quote s = CHR 0x22 # concat (map escape_char s) @ [CHR 0x22]"

fun print_value :: "string \<Rightarrow> jsval \<Rightarrow> string" where
  "print_value ind JNull = ''null''"
| "print_value ind (JBool b) = (if b then ''true'' else ''false'')"
| "print_value ind (JNum n) = (if n < 0 then CHR ''-'' # digits (nat (- n)) else digits (nat n))"
| "print_value ind (JStr s) = quote s"
| "print_value ind (JArr xs) =
     (if xs = [] then ''[]''
      else ''['' @ [CHR 0x0A] @ (ind @ ''  '') @
           join ('','' @ [CHR 0x0A] @ (ind @ ''  '')) (map (print_value (ind @ ''  '')) xs) @
           [CHR 0x0A] @ ind @ '']'')"
| "print_value ind (JObj kvs) =
     (if kvs = [] then ''{}''
      else ''{'' @ [CHR 0x0A] @ (ind @ ''  '') @
           join ('','' @ [CHR 0x0A] @ (ind @ ''  ''))
             (map (\<lambda>(k, v). quote k @ '': '' @ print_value (ind @ ''  '') v) kvs) @
           [CHR 0x0A] @ ind @ ''}'')"

definition of_document :: "document \<Rightarrow> jsval" where
  "of_document d = JObj [(doc_key d, JArr (map JObj (doc_items d)))]"

definition json_stringify :: "document \<Rightarrow> string" where
  "json_stringify d = print_value [] (of_document d)"


definition is_ws :: "char \<Rightarrow> bool" where
  "is_ws c = (c = CHR '' '' \<or> c = CHR 0x0A \<or> c = CHR 0x0D \<or> c = CHR 0x09)"

definition skip_ws :: "string \<Rightarrow> string" where
  "skip_ws s = dropWhile is_ws s"

definition is_digit :: "char \<Rightarrow> bool" where
  "is_digit c = (48 \<le> (of_char c :: nat) \<and> (of_char c :: nat) \<le> 57)"

definition hex_val :: "char \<Rightarrow> nat option" where
  "hex_val c =
     (let n = (of_char c :: nat) in
      if 48 \<le> n \<and> n \<le> 57 then Some (n - 48)
      else if 97 \<le> n \<and> n \<le> 102 then Some (n - 87)
      else if 65 \<le> n \<and> n \<le> 70 then Some (n - 55)
      else None)"

definition simple_escape :: "char \<Rightarrow> char option" where
  "simple_escape d =
     (if d = CHR 0x22 then Some (CHR 0x22)
      else if d = CHR 0x5C then Some (CHR 0x5C)
      else if d = CHR ''/'' then Some (CHR ''/'')
      else if d = CHR ''b'' then Some (CHR 0x08)
      else if d = CHR ''t'' then Some (CHR 0x09)
      else if d = CHR ''n'' then Some (CHR 0x0A)
      else if d = CHR ''f'' then Some (CHR 0x0C)
      else if d = CHR ''r'' then Some (CHR 0x0D)
      else None)"

fun parse_string :: "string \<Rightarrow> (string \<times> string) option" where
  "parse_string [] = None"
| "parse_string (c # cs) =
     (if c = CHR 0x22 then Some ([], cs)
      else if c = CHR 0x5C then
        (case cs of
           [] \<Rightarrow> None
         | d # ds \<Rightarrow>
             if d = CHR ''u'' then
               (case ds of
                  h1 # h2 # h3 # h4 # rest \<Rightarrow>
                    (case (hex_val h1, hex_val h2, hex_val h3, hex_val h4) of
                       (Some a, Some b, Some x, Some y) \<Rightarrow>
                         if a = 0 \<and> b = 0 then
                           (case parse_string rest of
                              None \<Rightarrow> None
                            | Some (s, r) \<Rightarrow> Some (char_of (16 * x + y) # s, r))
                         else None
                     | _ \<Rightarrow> None)
                | _ \<Rightarrow> None)
             else
               (case simple_escape d of
                  None \<Rightarrow> None
                | Some ch \<Rightarrow>
                    (case parse_string ds of
                       None \<Rightarrow> None
                     | Some (s, r) \<Rightarrow> Some (ch # s, r))))
      else if of_char c < (32::nat) then None
      else (case parse_string cs of
              None \<Rightarrow> None
            | Some (s, r) \<Rightarrow> Some (c # s, r)))"

definition nat_of_digits :: "string \<Rightarrow> nat" where
  "nat_of_digits ds = foldl (\<lambda>a c. 10 * a + (of_char c - 48)) 0 ds"

definition parse_nat :: "string \<Rightarrow> (nat \<times> string) option" where
  "parse_nat s =
     (let ds = takeWhile is_digit s; r = dropWhile is_digit s in
      if ds = [] \<or> (length ds > 1 \<and> hd ds = CHR ''0'') then None
      else if r \<noteq> [] \<and> (hd r = CHR ''.'' \<or> hd r = CHR ''e'' \<or> hd r = CHR ''E'') then None
      else Some (nat_of_digits ds, r))"

fun parse_value :: "nat \<Rightarrow> string \<Rightarrow> (jsval \<times> string) option"
  and parse_elements :: "nat \<Rightarrow> string \<Rightarrow> (jsval list \<times> string) option"
  and parse_members :: "nat \<Rightarrow> string \<Rightarrow> ((string \<times> jsval) list \<times> string) option"
where
  "parse_value 0 s = None"
| "parse_value (Suc n) s =
     (case skip_ws s of
        [] \<Rightarrow> None
      | c # cs \<Rightarrow>
          if c = CHR ''{'' then
            (case skip_ws cs of
               [] \<Rightarrow> None
             | d # r \<Rightarrow>
                 if d = CHR ''}'' then Some (JObj [], r)
                 else (case parse_members n cs of
                         None \<Rightarrow> None
                       | Some (kvs, r') \<Rightarrow> Some (JObj (assign [] kvs), r')))
          else if c = CHR ''['' then
            (case skip_ws cs of
               [] \<Rightarrow> None
             | d # r \<Rightarrow>
                 if d = CHR '']'' then Some (JArr [], r)
                 else (case parse_elements n cs of
                         None \<Rightarrow> None
                       | Some (vs, r') \<Rightarrow> Some (JArr vs, r')))
          else if c = CHR 0x22 then
            (case parse_string cs of
               None \<Rightarrow> None
             | Some (str, r) \<Rightarrow> Some (JStr str, r))
          else if take 4 (c # cs) = ''null'' then Some (JNull, drop 4 (c # cs))
          else if take 4 (c # cs) = ''true'' then Some (JBool True, drop 4 (c # cs))
          else if take 5 (c # cs) = ''false'' then Some (JBool False, drop 5 (c # cs))
          else if c = CHR ''-'' then
            (case parse_nat cs of
               None \<Rightarrow> None
             | Some (m, r) \<Rightarrow> Some (JNum (round_double (- int m)), r))
          else
            (case parse_nat (c # cs) of
               None \<Rightarrow> None
             | Some (m, r) \<Rightarrow> Some (JNum (round_double (int m)), r)))"
| "parse_elements 0 s = None"
| "parse_elements (Suc n) s =
     (case parse_value n s of
        None \<Rightarrow> None
      | Some (v, r) \<Rightarrow>
          (case skip_ws r of
             [] \<Rightarrow> None
           | c # cs \<Rightarrow>
               if c = CHR '','' then
                 (case parse_elements n cs of
                    None \<Rightarrow> None
                  | Some (vs, r') \<Rightarrow> Some (v # vs, r'))
               else if c = CHR '']'' then Some ([v], cs)
               else None))"
| "parse_members 0 s = None"
| "parse_members (Suc n) s =
     (case skip_ws s of
        [] \<Rightarrow> None
      | q # s1 \<Rightarrow>
          if q \<noteq> CHR 0x22 then None
          else
            (case parse_string s1 of
               None \<Rightarrow> None
             | Some (k, s2) \<Rightarrow>
                 (case skip_ws s2 of
                    [] \<Rightarrow> None
                  | colon # s3 \<Rightarrow>
                      if colon \<noteq> CHR '':'' then None
                      else
                        (case parse_value n s3 of
                           None \<Rightarrow> None
                         | Some (v, r) \<Rightarrow>
                             (case skip_ws r of
                                [] \<Rightarrow> None
                              | c # cs \<Rightarrow>
                                  if c = CHR '','' then
                                    (case parse_members n cs of
                                       None \<Rightarrow> None
                                     | Some (kvs, r') \<Rightarrow> Some ((k, v) # kvs, r'))
                                  else if c = CHR ''}'' then Some ([(k, v)], cs)
                                  else None)))))"

fun un_obj :: "jsval \<Rightarrow> entity option" where
  "un_obj (JObj kvs) = Some kvs"
| "un_obj v = None"

fun to_document :: "jsval \<Rightarrow> document option" where
  "to_document (JObj [(k, JArr items)]) =
     (if list_all (\<lambda>v. un_obj v \<noteq> None) items
      then Some (Doc k (map (\<lambda>v. the (un_obj v)) items)) else None)"
| "to_document v = None"

definition json_parse :: "string \<Rightarrow> document option" where
  "json_parse s =
     (case parse_value (length s) s of
        None \<Rightarrow> None
      | Some (v, r) \<Rightarrow> if skip_ws r = [] then to_document v else None)"


subsection \<open>Dates\<close>

definition days_from_civil :: "int \<Rightarrow> int \<Rightarrow> int \<Rightarrow> int" where
  "days_from_civil y m d =
     (let y' = (if m \<le> 2 then y - 1 else y);
          era = y' div 400;
          yoe = y' - era * 400;
          doy = (153 * (if m > 2 then m - 3 else m + 9) + 2) div 5 + d - 1;
          doe = yoe * 365 + yoe div 4 - yoe div 100 + doy
      in era * 146097 + doe - 719468)"

definition days_in_month :: "int \<Rightarrow> int \<Rightarrow> int" where
  "days_in_month y m =
     (if m = 2 then (if y mod 4 = 0 \<and> (y mod 100 \<noteq> 0 \<or> y mod 400 = 0) then 29 else 28)
      else if m = 4 \<or> m = 6 \<or> m = 9 \<or> m = 11 then 30 else 31)"

definition num_at :: "string \<Rightarrow> nat \<Rightarrow> nat \<Rightarrow> int option" where
  "num_at s i n =
     (let ds = take n (drop i s) in
      if length ds = n \<and> list_all is_digit ds then Some (int (nat_of_digits ds)) else None)"

definition iso_time :: "string \<Rightarrow> int option" where
  "iso_time s =
     (case (num_at s 0 4, num_at s 5 2, num_at s 8 2, num_at s 11 2, num_at s 14 2,
            num_at s 17 2, num_at s 20 3) of
        (Some y, Some m, Some d, Some h, Some mi, Some sec, Some ms) \<Rightarrow>
          if length s = 24 \<and> s ! 4 = CHR ''-'' \<and> s ! 7 = CHR ''-'' \<and> s ! 10 = CHR ''T'' \<and>
             s ! 13 = CHR '':'' \<and> s ! 16 = CHR '':'' \<and> s ! 19 = CHR ''.'' \<and> s ! 23 = CHR ''Z'' \<and>
             1 \<le> m \<and> m \<le> 12 \<and> 1 \<le> d \<and> d \<le> days_in_month y m \<and>
             h \<le> 23 \<and> mi \<le> 59 \<and> sec \<le> 59
          then Some ((((days_from_civil y m d * 24 + h) * 60 + mi) * 60 + sec) * 1000 + ms)
          else None
      | _ \<Rightarrow> None)"

fun date_getTime :: "jsval option \<Rightarrow> int option" where
  "date_getTime (Some (JStr s)) = iso_time s"
| "date_getTime (Some (JNum n)) = Some n"
| "date_getTime v = None"

definition node :: "bool \<Rightarrow> env" where
  "node vercel =
     \<lparr>isVercel = vercel, kv = vercel,
      DATA_DIR = (if vercel then [] else ''/app/data''),
      JSON_stringify = json_stringify, JSON_parse = json_parse,
      Date_getTime = date_getTime, kv_get = (\<lambda>name. KvValue None)\<rparr>"

definition fresh :: store where
  "fresh = \<lparr>memoryStore = Map.empty, files = Map.empty, dataDir = False, background = []\<rparr>"



subsection \<open>Sample data\<close>

definition alice :: entity where
  "alice = [(''id'', JStr ''p1''), (''name'', JStr ''Alice''), (''votes'', JNum 3), (''rank'', JStr ''bronze'')]"

definition bob :: entity where
  "bob = [(''id'', JStr ''p2''), (''name'', JStr ''Bob'')]"

definition hello :: entity where
  "hello = [(''id'', JStr ''post1''), (''title'', JStr ''Hello''), (''createdAt'', JStr ''2024-01-15T10:30:00.000Z'')]"

definition news :: entity where
  "news = [(''id'', JStr ''post2''), (''likes'', JNum 41), (''isPinned'', JBool True),
           (''createdAt'', JStr ''2024-01-10T08:00:00.000Z'')]"

definition compact_profiles :: string where
  "compact_profiles = ''{'' @ quote ''profiles'' @ '':[]}''"

definition hand_written :: store where
  "hand_written = fresh\<lparr>files := [''/app/data/profiles.json'' \<mapsto> compact_profiles], dataDir := True\<rparr>"

definition vote1 :: entity where
  "vote1 = [(''voterId'', JStr ''v1''), (''profileId'', JStr ''p1''), (''createdAt'', JStr ''2024-05-01T09:15:00.000Z'')]"

definition vote2 :: entity where
  "vote2 = [(''voterId'', JStr ''v2''), (''profileId'', JStr ''p1''), (''createdAt'', JStr ''2024-04-30T23:59:59.000Z'')]"

definition vote3 :: entity where
  "vote3 = [(''voterId'', JStr ''v1''), (''profileId'', JStr ''p2''), (''createdAt'', JStr ''2024-04-30T10:00:00.000Z'')]"

definition chat_msg :: "nat \<Rightarrow> entity" where
  "chat_msg k = [(''id'', JStr ''m''), (''seq'', JNum (int k)), (''createdAt'', JStr ''2024-05-01T12:00:00.000Z'')]"

definition later :: entity where
  "later = [(''id'', JStr ''post3''), (''isPinned'', JBool False),
            (''createdAt'', JStr ''2024-02-01T00:00:00.000Z'')]"

definition viral :: entity where
  "viral = [(''id'', JStr ''post5''), (''likes'', JNum 9007199254740992)]"

definition breaking :: entity where
  "breaking = [(''id'', JStr ''post4''), (''isPinned'', JBool True),
               (''createdAt'', JStr ''2024-01-15T10:30:00.000Z'')]"

section \<open>Lemmas about the store\<close>

lemma getFilePath_inj: "\<not> isVercel e \<Longrightarrow> getFilePath e n1 = getFilePath e n2 \<Longrightarrow> n1 = n2"
  by (simp add: getFilePath_def fs_def)

lemma ensureDataDir_files [simp]: "files (ensureDataDir e st) = files st"
  by (simp add: ensureDataDir_def)

lemma ensureDataDir_memoryStore [simp]: "memoryStore (ensureDataDir e st) = memoryStore st"
  by (simp add: ensureDataDir_def)

lemma ensureDataDir_idem [simp]: "ensureDataDir e (ensureDataDir e st) = ensureDataDir e st"
  by (simp add: ensureDataDir_def)

lemma ensureDataDir_files_update [simp]:
  "ensureDataDir e (st\<lparr>files := f\<rparr>) = (ensureDataDir e st)\<lparr>files := f\<rparr>"
  by (simp add: ensureDataDir_def)

lemma holds_writeData: "holds e (writeData e st name D) name D"
  by (simp add: holds_def writeData_def fs_def Let_def)

lemma ensureDataDir_writeData [simp]: "ensureDataDir e (writeData e st name D) = writeData e st name D"
  by (simp add: writeData_def fs_def Let_def ensureDataDir_def)

lemma readData_holds:
  assumes "holds e st name D" and "\<not> isVercel e \<longrightarrow> json_safe e D"
  shows "readData e st name d = Inr (D, ensureDataDir e st)"
  using assms
  by (auto simp add: holds_def readData_def fs_def Let_def json_safe_def ensureDataDir_def)

lemma readData_after_write:
  assumes "\<not> isVercel e \<longrightarrow> json_safe e D"
  shows "readData e (writeData e st name D) name anyDefault = Inr (D, writeData e st name D)"
  using readData_holds [OF holds_writeData assms] by simp

lemma readData_again:
  assumes "readData e st name d = Inr (D, st1)"
    and "\<not> isVercel e \<longrightarrow> json_safe e d"
  shows "readData e st1 name d = Inr (D, st1)"
  using assms
  by (auto simp add: readData_def fs_def Let_def json_safe_def split: if_splits option.splits)

lemma readData_again_local:
  assumes "readData e st name d = Inr (D, st1)"
    and "\<not> isVercel e" and "json_safe e d"
  shows "readData e st1 name d' = Inr (D, st1)"
  using assms
  by (auto simp add: readData_def fs_def Let_def json_safe_def split: if_splits option.splits)

lemma readDataAsync_local: "\<not> isVercel e \<Longrightarrow> readDataAsync e st name d = readData e st name d"
  by (simp add: readDataAsync_def readData_def fs_def)

lemma readData_store:
  assumes "readData e st name d = Inr (D, st1)"
  shows "st1 = st\<lparr>dataDir := dataDir st \<or> \<not> isVercel e,
                   files := (if \<not> isVercel e \<and> files st (getFilePath e name) = None
                             then (files st)(getFilePath e name \<mapsto> JSON_stringify e d)
                             else files st)\<rparr>"
  using assms
  by (auto simp add: readData_def fs_def Let_def ensureDataDir_def split: if_splits option.splits)

lemma readData_unseen_local:
  assumes "\<not> isVercel e" and "files st (getFilePath e name) = None"
  shows "readData e st name D =
           Inr (D, (ensureDataDir e st)\<lparr>files := (files st)(getFilePath e name \<mapsto> JSON_stringify e D)\<rparr>)"
  using assms by (simp add: readData_def fs_def Let_def)

subsection \<open>findIndex\<close>

lemma findIndex_None_iff: "findIndex P xs = None \<longleftrightarrow> (\<forall>x\<in>set xs. \<not> P x)"
  by (induction xs) auto

lemma findIndex_Some:
  "findIndex P xs = Some k \<Longrightarrow> k < length xs \<and> P (xs ! k) \<and> (\<forall>j<k. \<not> P (xs ! j))"
proof (induction xs arbitrary: k)
  case Nil
  then show ?case by simp
next
  case (Cons x xs)
  show ?case
  proof (cases "P x")
    case True
    with Cons.prems show ?thesis by simp
  next
    case False
    with Cons.prems obtain k' where k': "findIndex P xs = Some k'" "k = Suc k'"
      by auto
    from Cons.IH [OF k'(1)] False k'(2) show ?thesis
      by (auto simp add: less_Suc_eq_0_disj)
  qed
qed

lemma findIndex_exists: "\<exists>x\<in>set xs. P x \<Longrightarrow> \<exists>k. findIndex P xs = Some k"
  using findIndex_None_iff [of P xs] by (cases "findIndex P xs") auto

lemma find_first:
  "k < length xs \<Longrightarrow> P (xs ! k) \<Longrightarrow> \<forall>j<k. \<not> P (xs ! j) \<Longrightarrow> find P xs = Some (xs ! k)"
proof (induction xs arbitrary: k)
  case Nil
  then show ?case by simp
next
  case (Cons x xs)
  show ?case
  proof (cases k)
    case 0
    with Cons.prems show ?thesis by simp
  next
    case (Suc k')
    with Cons.prems have "\<not> P x" by auto
    moreover from Cons.prems Suc have "find P xs = Some (xs ! k')"
      by (intro Cons.IH) auto
    ultimately show ?thesis using Suc by simp
  qed
qed

lemma find_after_update:
  assumes "findIndex P xs = Some k" and "P y"
  shows "find P (xs[k := y]) = Some y"
proof -
  from findIndex_Some [OF assms(1)]
  have k: "k < length xs" and before: "\<forall>j<k. \<not> P (xs ! j)" by auto
  have "find P (xs[k := y]) = Some ((xs[k := y]) ! k)"
    using k before assms(2) by (intro find_first) auto
  with k show ?thesis by simp
qed

subsection \<open>Objects\<close>

lemma map_of_assign: "map_of (assign t s) = map_of t ++ map_of (rev s)"
proof (induction s arbitrary: t)
  case Nil
  then show ?case by (simp add: assign_def)
next
  case (Cons kv s)
  obtain k v where kv: "kv = (k, v)" by (cases kv)
  have "assign t (kv # s) = assign (AList.update k v t) s"
    by (simp add: assign_def kv)
  then show ?case
    by (simp add: Cons.IH kv update_conv' map_add_upd_left fun_eq_iff map_add_def split: option.splits)
qed

lemma map_of_rev_distinct: "distinct (map fst s) \<Longrightarrow> map_of (rev s) = map_of s"
  by (rule map_of_inject_set [THEN iffD2]) (simp_all add: distinct_rev rev_map [symmetric])

lemma js_get_assign:
  assumes "is_object t" "is_object s"
  shows "js_get (assign (assign [] t) s) f =
           (case js_get s f of Some v \<Rightarrow> Some v | None \<Rightarrow> js_get t f)"
  using assms
  by (simp add: js_get_def map_of_assign is_object_def map_of_rev_distinct map_add_def
           split: option.splits)

lemma js_get_update: "js_get (AList.update k v obj) f = (if f = k then Some v else js_get obj f)"
  by (simp add: js_get_def update_conv')

lemma is_object_update: "is_object obj \<Longrightarrow> is_object (AList.update k v obj)"
  by (simp add: is_object_def distinct_update)

lemma is_object_assign: "is_object t \<Longrightarrow> is_object (assign t s)"
proof (induction s arbitrary: t)
  case Nil
  then show ?case by (simp add: assign_def)
next
  case (Cons kv s)
  obtain k v where kv: "kv = (k, v)" by (cases kv)
  have "assign t (kv # s) = assign (AList.update k v t) s"
    by (simp add: assign_def kv)
  with Cons show ?case by (simp add: is_object_update)
qed

subsection \<open>The runtime on the sample data\<close>

lemma node_flags [simp]:
  "isVercel (node v) = v" "JSON_stringify (node v) = json_stringify" "JSON_parse (node v) = json_parse"
  "DATA_DIR (node False) = ''/app/data''" "Date_getTime (node v) = date_getTime"
  by (simp_all add: node_def)

lemma hosted_safe: "\<not> isVercel (node True) \<longrightarrow> json_safe (node True) D"
  by simp

lemma profiles_safe: "json_safe (node False) (Doc ''profiles'' [alice, bob])"
proof -
  have "json_parse (json_stringify (Doc ''profiles'' [alice, bob])) = Some (Doc ''profiles'' [alice, bob])"
    by code_simp
  then show ?thesis by (simp add: json_safe_def)
qed

lemma empty_safe:
  "json_safe (node False) (Doc ''profiles'' [])" "json_safe (node False) (Doc ''posts'' [])"
  "json_safe (node False) (Doc ''votes'' [])" "json_safe (node False) (Doc ''messages'' [])"
proof -
  have "json_parse (json_stringify (Doc ''profiles'' [])) = Some (Doc ''profiles'' [])"
       "json_parse (json_stringify (Doc ''posts'' [])) = Some (Doc ''posts'' [])"
       "json_parse (json_stringify (Doc ''votes'' [])) = Some (Doc ''votes'' [])"
       "json_parse (json_stringify (Doc ''messages'' [])) = Some (Doc ''messages'' [])"
    by code_simp+
  then show "json_safe (node False) (Doc ''profiles'' [])" "json_safe (node False) (Doc ''posts'' [])"
  "json_safe (node False) (Doc ''votes'' [])" "json_safe (node False) (Doc ''messages'' [])"
    by (simp_all add: json_safe_def)
qed

lemma posts_safe: "json_safe (node False) (Doc ''posts'' [hello, news])"
proof -
  have "json_parse (json_stringify (Doc ''posts'' [hello, news])) = Some (Doc ''posts'' [hello, news])"
    by code_simp
  then show ?thesis by (simp add: json_safe_def)
qed

lemma stored_read:
  assumes "\<not> isVercel e \<longrightarrow> json_safe e D"
  shows "readData e (writeData e st name D) name d = Inr (D, writeData e st name D)"
  using assms by (rule readData_after_write)

section \<open>Rank tiers\<close>

text \<open>
  C2. For every integer vote count \<open>v\<close>, \<open>calculateRank v\<close> is legend from 1000 up, master
  on 500..999, diamond on 200..499, platinum on 100..199, gold on 50..99, silver on
  20..49 and bronze below 20 (negative counts included); the boundary values 0, 19, 20,
  999 and 1000 give bronze, bronze, silver, master and legend.
\<close>

theorem calculateRank_tiers:
  "(1000 \<le> v \<longrightarrow> calculateRank v = ''legend'') \<and>
   (500 \<le> v \<and> v \<le> 999 \<longrightarrow> calculateRank v = ''master'') \<and>
   (200 \<le> v \<and> v \<le> 499 \<longrightarrow> calculateRank v = ''diamond'') \<and>
   (100 \<le> v \<and> v \<le> 199 \<longrightarrow> calculateRank v = ''platinum'') \<and>
   (50 \<le> v \<and> v \<le> 99 \<longrightarrow> calculateRank v = ''gold'') \<and>
   (20 \<le> v \<and> v \<le> 49 \<longrightarrow> calculateRank v = ''silver'') \<and>
   (v < 20 \<longrightarrow> calculateRank v = ''bronze'') \<and>
   calculateRank 0 = ''bronze'' \<and> calculateRank 19 = ''bronze'' \<and>
   calculateRank 20 = ''silver'' \<and> calculateRank 999 = ''master'' \<and>
   calculateRank 1000 = ''legend''"
  by (simp add: calculateRank_def)

theorem calculateRank_tiers_witness:
  "(500::int) \<le> 742 \<and> (742::int) \<le> 999 \<and> calculateRank 742 = ''master''"
  using calculateRank_tiers [of 742] by simp

section \<open>Read after write\<close>

text \<open>
  C3. For every collection name and document \<open>D\<close>, \<open>writeData\<close> followed at once by
  \<open>readData\<close> with any default returns \<open>D\<close> and leaves the store as the write left it: on
  Vercel always, locally whenever the runtime's JSON text of \<open>D\<close> parses back to \<open>D\<close>.
\<close>

theorem write_then_read:
  assumes "\<not> isVercel e \<longrightarrow> json_safe e D"
  shows "readData e (writeData e st name D) name anyDefault = Inr (D, writeData e st name D)"
  using assms by (rule readData_after_write)

theorem write_then_read_witness:
  "json_safe (node False) (Doc ''profiles'' [alice, bob]) \<and>
   readData (node False) (writeData (node False) fresh ''profiles'' (Doc ''profiles'' [alice, bob]))
       ''profiles'' (Doc ''profiles'' []) =
     Inr (Doc ''profiles'' [alice, bob],
          writeData (node False) fresh ''profiles'' (Doc ''profiles'' [alice, bob])) \<and>
   readData (node True) (writeData (node True) fresh ''profiles'' (Doc ''profiles'' [alice, bob]))
       ''profiles'' (Doc ''profiles'' []) =
     Inr (Doc ''profiles'' [alice, bob],
          writeData (node True) fresh ''profiles'' (Doc ''profiles'' [alice, bob]))"
proof -
  have l: "\<not> isVercel (node False) \<longrightarrow> json_safe (node False) (Doc ''profiles'' [alice, bob])"
    using profiles_safe by simp
  show ?thesis
    using profiles_safe write_then_read [OF l] write_then_read [OF hosted_safe]
    by blast
qed

section \<open>The first read of a collection\<close>

text \<open>
  C4, as amended. A read of a collection never seen before returns the default \<open>D\<close>, and
  persists it in local mode only. Locally (no file yet) both \<open>readData\<close> and
  \<open>readDataAsync\<close> create the file with the JSON text of \<open>D\<close>, and if that text parses
  back to \<open>D\<close>, every later read, whatever its default, returns \<open>D\<close> and leaves the store
  alone, so this lasts until something writes the file. On Vercel (no cache entry, and for
  \<open>readDataAsync\<close> a remote miss or error) the read returns \<open>D\<close> and stores nothing: the
  store afterwards is the store before, so a later read is again a first read and returns
  the default it is given.
\<close>

theorem read_unseen_collection:
  "(isVercel e \<and> memoryStore st name = None \<longrightarrow>
      readData e st name D = Inr (D, st) \<and>
      (kv_get e name = KvValue None \<or> kv_get e name = KvError \<longrightarrow>
         readDataAsync e st name D = Inr (D, st))) \<and>
   (\<not> isVercel e \<and> files st (getFilePath e name) = None \<longrightarrow>
      (\<exists>st'. readData e st name D = Inr (D, st') \<and>
             readDataAsync e st name D = Inr (D, st') \<and>
             files st' (getFilePath e name) = Some (JSON_stringify e D) \<and>
             (json_safe e D \<longrightarrow>
                (\<forall>D'. readData e st' name D' = Inr (D, st') \<and>
                      readDataAsync e st' name D' = Inr (D, st')))))"
proof (intro conjI impI)
  assume h: "isVercel e \<and> memoryStore st name = None"
  then show "readData e st name D = Inr (D, st)"
    by (simp add: readData_def)
  assume "kv_get e name = KvValue None \<or> kv_get e name = KvError"
  with h show "readDataAsync e st name D = Inr (D, st)"
    by (auto simp add: readDataAsync_def fs_def)
next
  assume l: "\<not> isVercel e \<and> files st (getFilePath e name) = None"
  let ?st' = "(ensureDataDir e st)\<lparr>files := (files st)(getFilePath e name \<mapsto> JSON_stringify e D)\<rparr>"
  have r: "readData e st name D = Inr (D, ?st')"
    using l by (simp add: readData_unseen_local)
  have again: "readData e ?st' name D' = Inr (D, ?st')" if "json_safe e D" for D'
    using readData_again_local [OF r _ that] l by simp
  show "\<exists>st'. readData e st name D = Inr (D, st') \<and>
             readDataAsync e st name D = Inr (D, st') \<and>
             files st' (getFilePath e name) = Some (JSON_stringify e D) \<and>
             (json_safe e D \<longrightarrow>
                (\<forall>D'. readData e st' name D' = Inr (D, st') \<and>
                      readDataAsync e st' name D' = Inr (D, st')))"
    using r again l by (intro exI [of _ ?st']) (simp add: readDataAsync_local)
qed

theorem read_unseen_collection_witness:
  "(\<exists>st'. readData (node False) fresh ''votes'' (Doc ''votes'' []) = Inr (Doc ''votes'' [], st') \<and>
          files st' ''/app/data/votes.json'' = Some (json_stringify (Doc ''votes'' [])) \<and>
          readData (node False) st' ''votes'' (Doc ''votes'' [bob]) = Inr (Doc ''votes'' [], st')) \<and>
   readData (node True) fresh ''votes'' (Doc ''votes'' []) = Inr (Doc ''votes'' [], fresh)"
proof -
  have unseen: "\<not> isVercel (node False) \<and> files fresh (getFilePath (node False) ''votes'') = None"
    by (simp add: fresh_def)
  have cold: "isVercel (node True) \<and> memoryStore fresh ''votes'' = None"
    by (simp add: fresh_def)
  have path: "getFilePath (node False) ''votes'' = ''/app/data/votes.json''"
    by (simp add: getFilePath_def fs_def)
  from read_unseen_collection [of "node False" fresh "''votes''" "Doc ''votes'' []"] unseen
  obtain st' where
    "readData (node False) fresh ''votes'' (Doc ''votes'' []) = Inr (Doc ''votes'' [], st')"
    "files st' (getFilePath (node False) ''votes'') = Some (JSON_stringify (node False) (Doc ''votes'' []))"
    "json_safe (node False) (Doc ''votes'' []) \<longrightarrow>
       (\<forall>D'. readData (node False) st' ''votes'' D' = Inr (Doc ''votes'' [], st') \<and>
             readDataAsync (node False) st' ''votes'' D' = Inr (Doc ''votes'' [], st'))"
    by blast
  moreover from read_unseen_collection [of "node True" fresh "''votes''" "Doc ''votes'' []"] cold
  have "readData (node True) fresh ''votes'' (Doc ''votes'' []) = Inr (Doc ''votes'' [], fresh)"
    by blast
  ultimately show ?thesis
    using empty_safe(3) path by auto
qed

text \<open>
  The claim's "returns D and persists D" fails on Vercel: after a first read of the votes
  with the empty default the cache still has no entry, and the next read, given another
  default, returns that one.
\<close>

theorem hosted_read_stores_nothing:
  "readData (node True) fresh ''votes'' (Doc ''votes'' []) = Inr (Doc ''votes'' [], fresh) \<and>
   readDataAsync (node True) fresh ''votes'' (Doc ''votes'' []) = Inr (Doc ''votes'' [], fresh) \<and>
   memoryStore fresh ''votes'' = None \<and>
   readData (node True) fresh ''votes'' (Doc ''votes'' [vote1]) = Inr (Doc ''votes'' [vote1], fresh) \<and>
   readDataAsync (node True) fresh ''votes'' (Doc ''votes'' [vote1]) = Inr (Doc ''votes'' [vote1], fresh) \<and>
   Doc ''votes'' [vote1] \<noteq> Doc ''votes'' []"
  by (simp add: readData_def readDataAsync_def node_def fresh_def)

section \<open>Deleting\<close>

lemma filter_length_eq_iff: "length (filter P xs) = length xs \<longleftrightarrow> (\<forall>x\<in>set xs. P x)"
  by (metis filter_id_conv length_filter_le filter_True length_filter_less not_less_iff_gr_or_eq)

lemma deleteProfile_result:
  assumes "readData e st ''profiles'' (Doc ''profiles'' []) = Inr (Doc ''profiles'' ps, st1)"
  shows "deleteProfile e st i =
           (if \<exists>p\<in>set ps. has_id i p
            then Inr (True, writeData e st1 ''profiles'' (Doc ''profiles'' (filter (\<lambda>p. \<not> has_id i p) ps)))
            else Inr (False, st1))"
  using assms by (auto simp add: deleteProfile_def doc_get_def Let_def filter_length_eq_iff)

lemma deletePost_result:
  assumes "readData e st ''posts'' (Doc ''posts'' []) = Inr (Doc ''posts'' ps, st1)"
  shows "deletePost e st i =
           (if \<exists>p\<in>set ps. has_id i p
            then Inr (True, writeData e st1 ''posts'' (Doc ''posts'' (filter (\<lambda>p. \<not> has_id i p) ps)))
            else Inr (False, st1))"
  using assms by (auto simp add: deletePost_def doc_get_def Let_def filter_length_eq_iff)

text \<open>
  C9, as amended. Given the stored profiles (posts) collection, \<open>deleteProfile\<close>
  (\<open>deletePost\<close>) returns whether some entity has the id. If one has, the collection
  without the entities of that id is written and is what the store then holds. If none
  has, the result is \<open>False\<close> and \<open>writeData\<close> is not called: the store is the one the
  initial read leaves, and reading it again gives the same collection. That store is the
  one before the call on Vercel. Locally it differs from it in what the read itself
  creates, and in nothing else: the data directory, and the collection's file with the
  text of the empty default when there was no such file.
\<close>

theorem delete_removes_and_reports:
  "(readData e st ''profiles'' (Doc ''profiles'' []) = Inr (Doc ''profiles'' ps, st1) \<longrightarrow>
      ((\<exists>p\<in>set ps. has_id i p) \<longrightarrow>
         deleteProfile e st i =
           Inr (True, writeData e st1 ''profiles'' (Doc ''profiles'' (filter (\<lambda>p. \<not> has_id i p) ps))) \<and>
         holds e (writeData e st1 ''profiles'' (Doc ''profiles'' (filter (\<lambda>p. \<not> has_id i p) ps)))
           ''profiles'' (Doc ''profiles'' (filter (\<lambda>p. \<not> has_id i p) ps))) \<and>
      ((\<forall>p\<in>set ps. \<not> has_id i p) \<longrightarrow>
         deleteProfile e st i = Inr (False, st1) \<and>
         st1 = st\<lparr>dataDir := dataDir st \<or> \<not> isVercel e,
                   files := (if \<not> isVercel e \<and> files st (getFilePath e ''profiles'') = None
                             then (files st)(getFilePath e ''profiles'' \<mapsto>
                                    JSON_stringify e (Doc ''profiles'' []))
                             else files st)\<rparr> \<and>
         (isVercel e \<longrightarrow> st1 = st) \<and>
         ((\<not> isVercel e \<longrightarrow> json_safe e (Doc ''profiles'' [])) \<longrightarrow>
            readData e st1 ''profiles'' (Doc ''profiles'' []) = Inr (Doc ''profiles'' ps, st1)))) \<and>
   (readData e st ''posts'' (Doc ''posts'' []) = Inr (Doc ''posts'' qs, st2) \<longrightarrow>
      ((\<exists>p\<in>set qs. has_id i p) \<longrightarrow>
         deletePost e st i =
           Inr (True, writeData e st2 ''posts'' (Doc ''posts'' (filter (\<lambda>p. \<not> has_id i p) qs))) \<and>
         holds e (writeData e st2 ''posts'' (Doc ''posts'' (filter (\<lambda>p. \<not> has_id i p) qs)))
           ''posts'' (Doc ''posts'' (filter (\<lambda>p. \<not> has_id i p) qs))) \<and>
      ((\<forall>p\<in>set qs. \<not> has_id i p) \<longrightarrow>
         deletePost e st i = Inr (False, st2) \<and>
         st2 = st\<lparr>dataDir := dataDir st \<or> \<not> isVercel e,
                   files := (if \<not> isVercel e \<and> files st (getFilePath e ''posts'') = None
                             then (files st)(getFilePath e ''posts'' \<mapsto>
                                    JSON_stringify e (Doc ''posts'' []))
                             else files st)\<rparr> \<and>
         (isVercel e \<longrightarrow> st2 = st) \<and>
         ((\<not> isVercel e \<longrightarrow> json_safe e (Doc ''posts'' [])) \<longrightarrow>
            readData e st2 ''posts'' (Doc ''posts'' []) = Inr (Doc ''posts'' qs, st2))))"
proof (intro conjI impI)
  assume r: "readData e st ''profiles'' (Doc ''profiles'' []) = Inr (Doc ''profiles'' ps, st1)"
  {
    assume "\<exists>p\<in>set ps. has_id i p"
    then show "deleteProfile e st i =
        Inr (True, writeData e st1 ''profiles'' (Doc ''profiles'' (filter (\<lambda>p. \<not> has_id i p) ps)))"
      by (simp add: deleteProfile_result [OF r])
  }
  {
    assume "\<forall>p\<in>set ps. \<not> has_id i p"
    then show "deleteProfile e st i = Inr (False, st1)"
      by (simp add: deleteProfile_result [OF r])
  }
  show "st1 = st\<lparr>dataDir := dataDir st \<or> \<not> isVercel e,
                   files := (if \<not> isVercel e \<and> files st (getFilePath e ''profiles'') = None
                             then (files st)(getFilePath e ''profiles'' \<mapsto>
                                    JSON_stringify e (Doc ''profiles'' []))
                             else files st)\<rparr>"
    by (rule readData_store [OF r])
  {
    assume "isVercel e"
    then show "st1 = st"
      using readData_store [OF r] by simp
  }
  {
    assume "\<not> isVercel e \<longrightarrow> json_safe e (Doc ''profiles'' [])"
    then show "readData e st1 ''profiles'' (Doc ''profiles'' []) = Inr (Doc ''profiles'' ps, st1)"
      by (rule readData_again [OF r])
  }
next
  assume r: "readData e st ''posts'' (Doc ''posts'' []) = Inr (Doc ''posts'' qs, st2)"
  {
    assume "\<exists>p\<in>set qs. has_id i p"
    then show "deletePost e st i =
        Inr (True, writeData e st2 ''posts'' (Doc ''posts'' (filter (\<lambda>p. \<not> has_id i p) qs)))"
      by (simp add: deletePost_result [OF r])
  }
  {
    assume "\<forall>p\<in>set qs. \<not> has_id i p"
    then show "deletePost e st i = Inr (False, st2)"
      by (simp add: deletePost_result [OF r])
  }
  show "st2 = st\<lparr>dataDir := dataDir st \<or> \<not> isVercel e,
                   files := (if \<not> isVercel e \<and> files st (getFilePath e ''posts'') = None
                             then (files st)(getFilePath e ''posts'' \<mapsto>
                                    JSON_stringify e (Doc ''posts'' []))
                             else files st)\<rparr>"
    by (rule readData_store [OF r])
  {
    assume "isVercel e"
    then show "st2 = st"
      using readData_store [OF r] by simp
  }
  {
    assume "\<not> isVercel e \<longrightarrow> json_safe e (Doc ''posts'' [])"
    then show "readData e st2 ''posts'' (Doc ''posts'' []) = Inr (Doc ''posts'' qs, st2)"
      by (rule readData_again [OF r])
  }
qed (rule holds_writeData)+

theorem delete_removes_and_reports_witness:
  "deleteProfile (node False) (writeData (node False) fresh ''profiles'' (Doc ''profiles'' [alice, bob])) ''p1'' =
     Inr (True, writeData (node False)
                  (writeData (node False) fresh ''profiles'' (Doc ''profiles'' [alice, bob]))
                  ''profiles'' (Doc ''profiles'' [bob])) \<and>
   deleteProfile (node False) (writeData (node False) fresh ''profiles'' (Doc ''profiles'' [alice, bob])) ''p9'' =
     Inr (False, writeData (node False) fresh ''profiles'' (Doc ''profiles'' [alice, bob])) \<and>
   deletePost (node True) (writeData (node True) fresh ''posts'' (Doc ''posts'' [hello, news])) ''post2'' =
     Inr (True, writeData (node True)
                  (writeData (node True) fresh ''posts'' (Doc ''posts'' [hello, news]))
                  ''posts'' (Doc ''posts'' [hello])) \<and>
   deletePost (node True) (writeData (node True) fresh ''posts'' (Doc ''posts'' [hello, news])) ''post9'' =
     Inr (False, writeData (node True) fresh ''posts'' (Doc ''posts'' [hello, news])) \<and>
   deleteProfile (node False) fresh ''ghost'' =
     Inr (False, fresh\<lparr>dataDir := True,
                        files := [''/app/data/profiles.json'' \<mapsto> json_stringify (Doc ''profiles'' [])]\<rparr>) \<and>
   deletePost (node True) fresh ''ghost'' = Inr (False, fresh)"
proof -
  let ?l = "node False" and ?h = "node True"
  let ?sp = "writeData ?l fresh ''profiles'' (Doc ''profiles'' [alice, bob])"
  let ?sq = "writeData ?h fresh ''posts'' (Doc ''posts'' [hello, news])"
  have rp: "readData ?l ?sp ''profiles'' (Doc ''profiles'' []) = Inr (Doc ''profiles'' [alice, bob], ?sp)"
    using profiles_safe by (intro stored_read) simp
  have rq: "readData ?h ?sq ''posts'' (Doc ''posts'' []) = Inr (Doc ''posts'' [hello, news], ?sq)"
    by (intro stored_read) simp
  have ids: "has_id ''p1'' alice" "\<not> has_id ''p1'' bob" "\<not> has_id ''p9'' alice" "\<not> has_id ''p9'' bob"
    "has_id ''post2'' news" "\<not> has_id ''post2'' hello" "\<not> has_id ''post9'' news" "\<not> has_id ''post9'' hello"
    by (simp_all add: has_id_def js_get_def alice_def bob_def hello_def news_def)
  from delete_removes_and_reports [of ?l ?sp "[alice, bob]" ?sp "''p1''" "[]" ?sp] rp ids
  have a: "deleteProfile ?l ?sp ''p1'' = Inr (True, writeData ?l ?sp ''profiles'' (Doc ''profiles'' [bob]))"
    by simp
  from delete_removes_and_reports [of ?l ?sp "[alice, bob]" ?sp "''p9''" "[]" ?sp] rp ids
  have b: "deleteProfile ?l ?sp ''p9'' = Inr (False, ?sp)"
    by simp
  from delete_removes_and_reports [of ?h ?sq "[]" ?sq "''post2''" "[hello, news]" ?sq] rq ids
  have c: "deletePost ?h ?sq ''post2'' = Inr (True, writeData ?h ?sq ''posts'' (Doc ''posts'' [hello]))"
    by simp
  from delete_removes_and_reports [of ?h ?sq "[]" ?sq "''post9''" "[hello, news]" ?sq] rq ids
  have d: "deletePost ?h ?sq ''post9'' = Inr (False, ?sq)"
    by simp
  let ?made = "(ensureDataDir ?l fresh)\<lparr>files := (files fresh)(getFilePath ?l ''profiles'' \<mapsto>
      JSON_stringify ?l (Doc ''profiles'' []))\<rparr>"
  have path: "getFilePath ?l ''profiles'' = ''/app/data/profiles.json''"
    by (simp add: getFilePath_def fs_def)
  have none: "files fresh (getFilePath ?l ''profiles'') = None" "files fresh = Map.empty"
    "dataDir fresh = False" "memoryStore fresh ''posts'' = None"
    by (simp_all add: fresh_def)
  have rf: "readData ?l fresh ''profiles'' (Doc ''profiles'' []) = Inr (Doc ''profiles'' [], ?made)"
    using none(1) by (intro readData_unseen_local) simp
  have rg: "readData ?h fresh ''posts'' (Doc ''posts'' []) = Inr (Doc ''posts'' [], fresh)"
    using none(4) by (simp add: readData_def)
  from delete_removes_and_reports [of ?l fresh "[]" ?made "''ghost''" "[]" ?made] rf
  have "deleteProfile ?l fresh ''ghost'' = Inr (False, ?made)"
    and "?made = fresh\<lparr>dataDir := dataDir fresh \<or> \<not> isVercel ?l,
           files := (if \<not> isVercel ?l \<and> files fresh (getFilePath ?l ''profiles'') = None
                     then (files fresh)(getFilePath ?l ''profiles'' \<mapsto>
                            JSON_stringify ?l (Doc ''profiles'' []))
                     else files fresh)\<rparr>"
    by simp_all
  then have f: "deleteProfile ?l fresh ''ghost'' =
      Inr (False, fresh\<lparr>dataDir := True,
                         files := [''/app/data/profiles.json'' \<mapsto> json_stringify (Doc ''profiles'' [])]\<rparr>)"
    using none path by simp
  from delete_removes_and_reports [of ?h fresh "[]" fresh "''ghost''" "[]" fresh] rg
  have g: "deletePost ?h fresh ''ghost'' = Inr (False, fresh)"
    by simp
  from a b c d f g show ?thesis by blast
qed

text \<open>
  The claim's "persisting the filtered sequence unconditionally" fails: deleting an id
  that is not there writes nothing. On Vercel with an empty cache the store afterwards
  holds no profiles document at all; locally a file written by hand in compact form is
  left as it is, not replaced by the text the module would write.
\<close>

theorem delete_missing_writes_nothing:
  "deleteProfile (node True) fresh ''ghost'' = Inr (False, fresh) \<and>
   \<not> holds (node True) fresh ''profiles'' (Doc ''profiles'' []) \<and>
   deleteProfile (node False) hand_written ''ghost'' = Inr (False, hand_written) \<and>
   \<not> holds (node False) hand_written ''profiles'' (Doc ''profiles'' [])"
proof -
  have p: "json_parse compact_profiles = Some (Doc ''profiles'' [])"
    by code_simp
  have ne: "compact_profiles \<noteq> json_stringify (Doc ''profiles'' [])"
    by code_simp
  have path: "getFilePath (node False) ''profiles'' = ''/app/data/profiles.json''"
    by (simp add: getFilePath_def fs_def)
  have 1: "deleteProfile (node True) fresh ''ghost'' = Inr (False, fresh)"
    by (simp add: deleteProfile_def readData_def doc_get_def fresh_def)
  have 2: "\<not> holds (node True) fresh ''profiles'' (Doc ''profiles'' [])"
    by (simp add: holds_def fresh_def)
  have 3: "deleteProfile (node False) hand_written ''ghost'' = Inr (False, hand_written)"
    using p by (simp add: deleteProfile_def readData_def doc_get_def hand_written_def fresh_def
        path fs_def ensureDataDir_def)
  have 4: "\<not> holds (node False) hand_written ''profiles'' (Doc ''profiles'' [])"
    using ne by (simp add: holds_def hand_written_def fresh_def path)
  from 1 2 3 4 show ?thesis by blast
qed

section \<open>Liking a post\<close>

lemma bit_length_le: "n < 2 ^ k \<Longrightarrow> bit_length n \<le> k"
proof (induction n arbitrary: k rule: bit_length.induct)
  case (1 n)
  show ?case
  proof (cases "n = 0")
    case True
    then show ?thesis by (subst bit_length.simps) simp
  next
    case False
    with 1(2) obtain k' where k: "k = Suc k'" by (cases k) auto
    with 1(2) have "n div 2 < 2 ^ k'" by auto
    with 1(1) False have "bit_length (n div 2) \<le> k'" by simp
    with False k show ?thesis by (subst bit_length.simps) simp
  qed
qed

lemma bit_length_eq: "2 ^ k \<le> n \<Longrightarrow> n < 2 ^ Suc k \<Longrightarrow> bit_length n = Suc k"
proof (induction k arbitrary: n)
  case 0
  then have "n = 1" by simp
  then show ?case by (simp add: bit_length.simps [of "Suc 0"] bit_length.simps [of 0])
next
  case (Suc k)
  from Suc.prems have "2 ^ k \<le> n div 2" "n div 2 < 2 ^ Suc k" by auto
  then have "bit_length (n div 2) = Suc k" by (rule Suc.IH)
  moreover from Suc.prems have "n \<noteq> 0" by auto
  ultimately show ?case by (subst bit_length.simps) simp
qed

text \<open>Below \<open>2^53\<close> in magnitude every integer is a double.\<close>

lemma round_double_small:
  assumes "\<bar>x\<bar> < 2 ^ 53"
  shows "round_double x = x"
proof -
  have "nat \<bar>x\<bar> < 2 ^ 53" using assms by (simp add: nat_less_iff)
  then have "bit_length (nat \<bar>x\<bar>) - 53 = 0"
    using bit_length_le [of "nat \<bar>x\<bar>" 53] by simp
  then show ?thesis
    by (simp add: round_double_def Let_def sgn_mult_abs)
qed

text \<open>
  \<open>2^53 = 9007199254740992\<close> is a double and \<open>2^53 + 1\<close> is not: it lies halfway between
  \<open>2^53\<close> and \<open>2^53 + 2\<close> and rounds to the former, whose significand is even.
\<close>

lemma round_double_limit:
  "round_double 9007199254740992 = 9007199254740992"
  "round_double 9007199254740993 = 9007199254740992"
proof -
  have "bit_length 9007199254740992 = Suc 53" "bit_length 9007199254740993 = Suc 53"
    by (rule bit_length_eq; simp)+
  then show "round_double 9007199254740992 = 9007199254740992"
    "round_double 9007199254740993 = 9007199254740992"
    by (simp_all add: round_double_def Let_def)
qed

lemma round_double_plus_one:
  assumes "- 9007199254740992 \<le> n" and "n < 9007199254740992"
  shows "round_double (n + 1) = n + 1"
proof (cases "n + 1 = 9007199254740992")
  case True
  then show ?thesis by (simp add: round_double_limit)
next
  case False
  with assms have "\<bar>n + 1\<bar> < 2 ^ 53" by simp
  then show ?thesis by (rule round_double_small)
qed

lemma round_double_one: "round_double 1 = 1"
  by (rule round_double_small) simp

lemma likePost_missing:
  assumes "readData e st ''posts'' (Doc ''posts'' []) = Inr (Doc ''posts'' ps, st1)"
    and "\<forall>p\<in>set ps. \<not> has_id i p"
  shows "likePost e st i = Inr (None, st1)"
  using assms findIndex_None_iff [of "has_id i" ps]
  by (simp add: likePost_def doc_get_def)

lemma likePost_found:
  assumes "readData e st ''posts'' (Doc ''posts'' []) = Inr (Doc ''posts'' ps, st1)"
    and "findIndex (has_id i) ps = Some k"
  shows "likePost e st i =
           Inr (Some (AList.update ''likes'' (js_plus (js_or (js_get (ps ! k) ''likes'') (JNum 0)) (JNum 1)) (ps ! k)),
                writeData e st1 ''posts''
                  (Doc ''posts'' (ps[k := AList.update ''likes''
                       (js_plus (js_or (js_get (ps ! k) ''likes'') (JNum 0)) (JNum 1)) (ps ! k)])))"
  using assms findIndex_Some [OF assms(2)]
  by (simp add: likePost_def doc_get_def Let_def)

text \<open>
  C10, as amended. Given the stored posts collection: if no post has the id, \<open>likePost\<close>
  returns \<open>None\<close> without calling \<open>writeData\<close> (the store is the one the read left, and
  reads the same again). Otherwise, for the first post \<open>k\<close> with the id, it returns the
  liked post and writes the collection with that post replaced; its \<open>likes\<close> is 1 when the
  post had none and \<open>n + 1\<close> when it had a number \<open>n\<close> with \<open>-2^53 \<le> n < 2^53\<close>, the
  range where the sum is a double; every other property of the post, the length of the
  collection and every other post are unchanged.
\<close>

theorem likePost_increments:
  assumes "readData e st ''posts'' (Doc ''posts'' []) = Inr (Doc ''posts'' ps, st1)"
  shows "((\<forall>p\<in>set ps. \<not> has_id i p) \<longrightarrow>
            likePost e st i = Inr (None, st1) \<and>
            ((\<not> isVercel e \<longrightarrow> json_safe e (Doc ''posts'' [])) \<longrightarrow>
               readData e st1 ''posts'' (Doc ''posts'' []) = Inr (Doc ''posts'' ps, st1))) \<and>
         ((\<exists>p\<in>set ps. has_id i p) \<longrightarrow>
            (\<exists>k liked.
               k < length ps \<and> has_id i (ps ! k) \<and> (\<forall>j<k. \<not> has_id i (ps ! j)) \<and>
               likePost e st i =
                 Inr (Some liked, writeData e st1 ''posts'' (Doc ''posts'' (ps[k := liked]))) \<and>
               holds e (writeData e st1 ''posts'' (Doc ''posts'' (ps[k := liked])))
                 ''posts'' (Doc ''posts'' (ps[k := liked])) \<and>
               (js_get (ps ! k) ''likes'' = None \<longrightarrow> js_get liked ''likes'' = Some (JNum 1)) \<and>
               (\<forall>n. js_get (ps ! k) ''likes'' = Some (JNum n) \<and>
                    - 9007199254740992 \<le> n \<and> n < 9007199254740992 \<longrightarrow>
                    js_get liked ''likes'' = Some (JNum (n + 1))) \<and>
               (\<forall>f. f \<noteq> ''likes'' \<longrightarrow> js_get liked f = js_get (ps ! k) f) \<and>
               length (ps[k := liked]) = length ps \<and>
               (\<forall>j. j \<noteq> k \<longrightarrow> (ps[k := liked]) ! j = ps ! j)))"
proof (intro conjI impI)
  assume none: "\<forall>p\<in>set ps. \<not> has_id i p"
  then show "likePost e st i = Inr (None, st1)"
    by (rule likePost_missing [OF assms])
  assume "\<not> isVercel e \<longrightarrow> json_safe e (Doc ''posts'' [])"
  then show "readData e st1 ''posts'' (Doc ''posts'' []) = Inr (Doc ''posts'' ps, st1)"
    by (rule readData_again [OF assms])
next
  assume ex: "\<exists>p\<in>set ps. has_id i p"
  from findIndex_exists [OF ex] obtain k where k: "findIndex (has_id i) ps = Some k" ..
  let ?liked = "AList.update ''likes'' (js_plus (js_or (js_get (ps ! k) ''likes'') (JNum 0)) (JNum 1)) (ps ! k)"
  have absent: "js_get (ps ! k) ''likes'' = None \<Longrightarrow> js_get ?liked ''likes'' = Some (JNum 1)"
    by (simp add: js_get_update js_or_def js_plus_def round_double_one)
  have present: "js_get (ps ! k) ''likes'' = Some (JNum n) \<and>
      - 9007199254740992 \<le> n \<and> n < 9007199254740992 \<Longrightarrow>
      js_get ?liked ''likes'' = Some (JNum (n + 1))" for n
    using round_double_plus_one [of n]
    by (auto simp add: js_get_update js_or_def js_plus_def round_double_one)
  have others: "f \<noteq> ''likes'' \<Longrightarrow> js_get ?liked f = js_get (ps ! k) f" for f
    by (simp add: js_get_update)
  have len: "length (ps[k := ?liked]) = length ps" by simp
  have frame: "\<forall>j. j \<noteq> k \<longrightarrow> (ps[k := ?liked]) ! j = ps ! j" by simp
  from findIndex_Some [OF k]
  have first: "k < length ps" "has_id i (ps ! k)" "\<forall>j<k. \<not> has_id i (ps ! j)" by blast+
  have res: "likePost e st i =
      Inr (Some ?liked, writeData e st1 ''posts'' (Doc ''posts'' (ps[k := ?liked])))"
    by (rule likePost_found [OF assms k])
  have h: "holds e (writeData e st1 ''posts'' (Doc ''posts'' (ps[k := ?liked])))
      ''posts'' (Doc ''posts'' (ps[k := ?liked]))"
    by (rule holds_writeData)
  show "\<exists>k liked.
      k < length ps \<and> has_id i (ps ! k) \<and> (\<forall>j<k. \<not> has_id i (ps ! j)) \<and>
      likePost e st i =
        Inr (Some liked, writeData e st1 ''posts'' (Doc ''posts'' (ps[k := liked]))) \<and>
      holds e (writeData e st1 ''posts'' (Doc ''posts'' (ps[k := liked])))
        ''posts'' (Doc ''posts'' (ps[k := liked])) \<and>
      (js_get (ps ! k) ''likes'' = None \<longrightarrow> js_get liked ''likes'' = Some (JNum 1)) \<and>
      (\<forall>n. js_get (ps ! k) ''likes'' = Some (JNum n) \<and>
           - 9007199254740992 \<le> n \<and> n < 9007199254740992 \<longrightarrow>
           js_get liked ''likes'' = Some (JNum (n + 1))) \<and>
      (\<forall>f. f \<noteq> ''likes'' \<longrightarrow> js_get liked f = js_get (ps ! k) f) \<and>
      length (ps[k := liked]) = length ps \<and>
      (\<forall>j. j \<noteq> k \<longrightarrow> (ps[k := liked]) ! j = ps ! j)"
  proof (rule exI [of _ k], rule exI [of _ ?liked], intro conjI)
    show "k < length ps" by (rule first(1))
    show "has_id i (ps ! k)" by (rule first(2))
    show "\<forall>j<k. \<not> has_id i (ps ! j)" by (rule first(3))
    show "likePost e st i =
      Inr (Some ?liked, writeData e st1 ''posts'' (Doc ''posts'' (ps[k := ?liked])))"
      by (rule res)
    show "holds e (writeData e st1 ''posts'' (Doc ''posts'' (ps[k := ?liked])))
      ''posts'' (Doc ''posts'' (ps[k := ?liked]))"
      by (rule h)
    show "js_get (ps ! k) ''likes'' = None \<longrightarrow> js_get ?liked ''likes'' = Some (JNum 1)"
      using absent by (rule impI)
    show "\<forall>n. js_get (ps ! k) ''likes'' = Some (JNum n) \<and>
           - 9007199254740992 \<le> n \<and> n < 9007199254740992 \<longrightarrow>
           js_get ?liked ''likes'' = Some (JNum (n + 1))"
      using present by (intro allI impI)
    show "\<forall>f. f \<noteq> ''likes'' \<longrightarrow> js_get ?liked f = js_get (ps ! k) f"
      using others by (intro allI impI)
    show "length (ps[k := ?liked]) = length ps" by (rule len)
    show "\<forall>j. j \<noteq> k \<longrightarrow> (ps[k := ?liked]) ! j = ps ! j" by (rule frame)
  qed
qed

theorem likePost_increments_witness:
  "likePost (node False) (writeData (node False) fresh ''posts'' (Doc ''posts'' [hello, news])) ''post1'' =
     Inr (Some (hello @ [(''likes'', JNum 1)]),
          writeData (node False) (writeData (node False) fresh ''posts'' (Doc ''posts'' [hello, news]))
            ''posts'' (Doc ''posts'' [hello @ [(''likes'', JNum 1)], news])) \<and>
   (\<exists>liked. likePost (node True) (writeData (node True) fresh ''posts'' (Doc ''posts'' [hello, news])) ''post2'' =
     Inr (Some liked,
          writeData (node True) (writeData (node True) fresh ''posts'' (Doc ''posts'' [hello, news]))
            ''posts'' (Doc ''posts'' [hello, liked])) \<and>
      js_get liked ''likes'' = Some (JNum 42) \<and> js_get liked ''isPinned'' = Some (JBool True)) \<and>
   likePost (node True) (writeData (node True) fresh ''posts'' (Doc ''posts'' [hello, news])) ''post9'' =
     Inr (None, writeData (node True) fresh ''posts'' (Doc ''posts'' [hello, news]))"
proof -
  let ?l = "node False" and ?h = "node True"
  let ?sl = "writeData ?l fresh ''posts'' (Doc ''posts'' [hello, news])"
  let ?sh = "writeData ?h fresh ''posts'' (Doc ''posts'' [hello, news])"
  have rl: "readData ?l ?sl ''posts'' (Doc ''posts'' []) = Inr (Doc ''posts'' [hello, news], ?sl)"
    using posts_safe by (intro stored_read) simp
  have rh: "readData ?h ?sh ''posts'' (Doc ''posts'' []) = Inr (Doc ''posts'' [hello, news], ?sh)"
    by (intro stored_read) simp
  have ids: "has_id ''post1'' hello" "\<not> has_id ''post1'' news"
    "has_id ''post2'' news" "\<not> has_id ''post2'' hello" "\<not> has_id ''post9'' news" "\<not> has_id ''post9'' hello"
    by (simp_all add: has_id_def js_get_def hello_def news_def)
  have a: "likePost ?l ?sl ''post1'' =
     Inr (Some (hello @ [(''likes'', JNum 1)]),
          writeData ?l ?sl ''posts'' (Doc ''posts'' [hello @ [(''likes'', JNum 1)], news]))"
  proof -
    from likePost_increments [OF rl, of "''post1''"] ids
    obtain k liked where k: "k < length [hello, news]" "has_id ''post1'' ([hello, news] ! k)"
      and res: "likePost ?l ?sl ''post1'' =
          Inr (Some liked, writeData ?l ?sl ''posts'' (Doc ''posts'' ([hello, news][k := liked])))"
      and likes: "js_get ([hello, news] ! k) ''likes'' = None \<longrightarrow> js_get liked ''likes'' = Some (JNum 1)"
      by auto
    from k ids have k0: "k = 0" by (cases k) auto
    have "likePost ?l ?sl ''post1'' =
       Inr (Some (AList.update ''likes'' (js_plus (js_or (js_get hello ''likes'') (JNum 0)) (JNum 1)) hello),
            writeData ?l ?sl ''posts'' (Doc ''posts''
              ([hello, news][0 := AList.update ''likes'' (js_plus (js_or (js_get hello ''likes'') (JNum 0)) (JNum 1)) hello])))"
      using likePost_found [OF rl, of "''post1''" 0] ids by simp
    moreover have "AList.update ''likes'' (js_plus (js_or (js_get hello ''likes'') (JNum 0)) (JNum 1)) hello
        = hello @ [(''likes'', JNum 1)]"
      by (simp add: hello_def js_get_def js_or_def js_plus_def round_double_one)
    ultimately show ?thesis by simp
  qed
  have b: "\<exists>liked. likePost ?h ?sh ''post2'' =
     Inr (Some liked, writeData ?h ?sh ''posts'' (Doc ''posts'' [hello, liked])) \<and>
      js_get liked ''likes'' = Some (JNum 42) \<and> js_get liked ''isPinned'' = Some (JBool True)"
  proof -
    from likePost_increments [OF rh, of "''post2''"] ids
    obtain k liked where k: "k < length [hello, news]" "has_id ''post2'' ([hello, news] ! k)"
      and res: "likePost ?h ?sh ''post2'' =
          Inr (Some liked, writeData ?h ?sh ''posts'' (Doc ''posts'' ([hello, news][k := liked])))"
      and likes: "\<forall>n. js_get ([hello, news] ! k) ''likes'' = Some (JNum n) \<and>
          - 9007199254740992 \<le> n \<and> n < 9007199254740992 \<longrightarrow>
          js_get liked ''likes'' = Some (JNum (n + 1))"
      and others: "\<forall>f. f \<noteq> ''likes'' \<longrightarrow> js_get liked f = js_get ([hello, news] ! k) f"
      by auto
    from k ids have k1: "k = 1" by (cases k) auto
    have "js_get news ''likes'' = Some (JNum 41)" "js_get news ''isPinned'' = Some (JBool True)"
      by (simp_all add: news_def js_get_def)
    with likes others k1 have "js_get liked ''likes'' = Some (JNum 42)"
      "js_get liked ''isPinned'' = Some (JBool True)"
      by auto
    with res k1 show ?thesis by auto
  qed
  have c: "likePost ?h ?sh ''post9'' = Inr (None, ?sh)"
    using likePost_increments [OF rh, of "''post9''"] ids by simp
  from a b c show ?thesis by blast
qed

text \<open>
  The claim's "increments exactly that post's likes field by one" fails where the sum is
  not a double: a post whose \<open>likes\<close> is \<open>2^53\<close> comes back from \<open>likePost\<close> with \<open>likes\<close>
  still \<open>2^53\<close>, and the collection written is the one that was read.
\<close>

theorem likePost_at_limit:
  "likePost (node True) (writeData (node True) fresh ''posts'' (Doc ''posts'' [viral])) ''post5'' =
     Inr (Some viral,
          writeData (node True) (writeData (node True) fresh ''posts'' (Doc ''posts'' [viral]))
            ''posts'' (Doc ''posts'' [viral])) \<and>
   js_get viral ''likes'' = Some (JNum 9007199254740992)"
proof -
  let ?h = "node True"
  let ?sh = "writeData ?h fresh ''posts'' (Doc ''posts'' [viral])"
  have rh: "readData ?h ?sh ''posts'' (Doc ''posts'' []) = Inr (Doc ''posts'' [viral], ?sh)"
    by (intro stored_read) simp
  have likes: "js_get viral ''likes'' = Some (JNum 9007199254740992)"
    by (simp add: viral_def js_get_def)
  have found: "findIndex (has_id ''post5'') [viral] = Some 0"
    by (simp add: has_id_def viral_def js_get_def)
  have same: "AList.update ''likes'' (js_plus (js_or (js_get viral ''likes'') (JNum 0)) (JNum 1)) viral = viral"
    by (simp add: likes js_or_def js_plus_def round_double_limit) (simp add: viral_def)
  from likePost_found [OF rh found] same likes show ?thesis by simp
qed

section \<open>Updating a profile\<close>

lemma js_get_Nil: "js_get [] f = None"
  by (simp add: js_get_def)

lemma js_get_Cons: "js_get ((k, v) # kvs) f = (if f = k then Some v else js_get kvs f)"
  by (simp add: js_get_def)

lemma js_get_merged:
  assumes "is_object p" "is_object updates"
  shows "js_get (AList.update ''updatedAt'' (JStr now) (assign (assign [] p) updates)) f =
           (if f = ''updatedAt'' then Some (JStr now)
            else case js_get updates f of Some v \<Rightarrow> Some v | None \<Rightarrow> js_get p f)"
  using assms by (simp add: js_get_update js_get_assign)

lemma updateProfile_missing:
  assumes "readData e st ''profiles'' (Doc ''profiles'' []) = Inr (Doc ''profiles'' ps, st1)"
    and "\<forall>p\<in>set ps. \<not> has_id i p"
  shows "updateProfile e st now i updates = Inr (None, st1)"
  using assms findIndex_None_iff [of "has_id i" ps]
  by (simp add: updateProfile_def doc_get_def)

lemma updateProfile_found:
  assumes "readData e st ''profiles'' (Doc ''profiles'' []) = Inr (Doc ''profiles'' ps, st1)"
    and "findIndex (has_id i) ps = Some k"
  shows "updateProfile e st now i updates =
           Inr (Some (AList.update ''updatedAt'' (JStr now) (assign (assign [] (ps ! k)) updates)),
                writeData e st1 ''profiles''
                  (Doc ''profiles''
                     (ps[k := AList.update ''updatedAt'' (JStr now) (assign (assign [] (ps ! k)) updates)])))"
  using assms findIndex_Some [OF assms(2)]
  by (simp add: updateProfile_def doc_get_def Let_def)

lemma sample_objects: "is_object alice" "is_object bob"
  by (simp_all add: is_object_def alice_def bob_def)

lemma sample_ids:
  "has_id ''p1'' alice" "\<not> has_id ''p1'' bob" "\<not> has_id ''p9'' alice" "\<not> has_id ''p9'' bob"
  by (simp_all add: has_id_def js_get_def alice_def bob_def)

text \<open>
  C8. Given the stored profiles collection, with the profiles and the update objects: if
  no profile has the id, \<open>updateProfile\<close> returns \<open>None\<close>. Otherwise, for the first
  profile \<open>k\<close> with the id, it returns the merged entity and writes the collection with
  that profile replaced, which is what the store then holds. In the merged entity
  \<open>updatedAt\<close> is the current time, whether or not the update names \<open>updatedAt\<close>; every
  other property the update names has the update's value; every property it does not
  name is the profile's. The collection keeps its length and every other profile.
\<close>

theorem updateProfile_merges:
  assumes read: "readData e st ''profiles'' (Doc ''profiles'' []) = Inr (Doc ''profiles'' ps, st1)"
    and objects: "is_object updates" "\<forall>p\<in>set ps. is_object p"
  shows "((\<forall>p\<in>set ps. \<not> has_id i p) \<longrightarrow> updateProfile e st now i updates = Inr (None, st1)) \<and>
         ((\<exists>p\<in>set ps. has_id i p) \<longrightarrow>
            (\<exists>k merged.
               k < length ps \<and> has_id i (ps ! k) \<and> (\<forall>j<k. \<not> has_id i (ps ! j)) \<and>
               updateProfile e st now i updates =
                 Inr (Some merged, writeData e st1 ''profiles'' (Doc ''profiles'' (ps[k := merged]))) \<and>
               holds e (writeData e st1 ''profiles'' (Doc ''profiles'' (ps[k := merged])))
                 ''profiles'' (Doc ''profiles'' (ps[k := merged])) \<and>
               js_get merged ''updatedAt'' = Some (JStr now) \<and>
               (\<forall>f v. f \<noteq> ''updatedAt'' \<and> js_get updates f = Some v \<longrightarrow> js_get merged f = Some v) \<and>
               (\<forall>f. f \<noteq> ''updatedAt'' \<and> js_get updates f = None \<longrightarrow>
                    js_get merged f = js_get (ps ! k) f) \<and>
               length (ps[k := merged]) = length ps \<and>
               (\<forall>j. j \<noteq> k \<longrightarrow> (ps[k := merged]) ! j = ps ! j)))"
proof (intro conjI impI)
  assume "\<forall>p\<in>set ps. \<not> has_id i p"
  then show "updateProfile e st now i updates = Inr (None, st1)"
    by (rule updateProfile_missing [OF read])
next
  assume ex: "\<exists>p\<in>set ps. has_id i p"
  from findIndex_exists [OF ex] obtain k where k: "findIndex (has_id i) ps = Some k" ..
  let ?merged = "AList.update ''updatedAt'' (JStr now) (assign (assign [] (ps ! k)) updates)"
  from findIndex_Some [OF k]
  have first: "k < length ps" "has_id i (ps ! k)" "\<forall>j<k. \<not> has_id i (ps ! j)" by blast+
  from first(1) objects(2) have obj: "is_object (ps ! k)" by simp
  note get = js_get_merged [OF obj objects(1), of now]
  show "\<exists>k merged.
      k < length ps \<and> has_id i (ps ! k) \<and> (\<forall>j<k. \<not> has_id i (ps ! j)) \<and>
      updateProfile e st now i updates =
        Inr (Some merged, writeData e st1 ''profiles'' (Doc ''profiles'' (ps[k := merged]))) \<and>
      holds e (writeData e st1 ''profiles'' (Doc ''profiles'' (ps[k := merged])))
        ''profiles'' (Doc ''profiles'' (ps[k := merged])) \<and>
      js_get merged ''updatedAt'' = Some (JStr now) \<and>
      (\<forall>f v. f \<noteq> ''updatedAt'' \<and> js_get updates f = Some v \<longrightarrow> js_get merged f = Some v) \<and>
      (\<forall>f. f \<noteq> ''updatedAt'' \<and> js_get updates f = None \<longrightarrow>
           js_get merged f = js_get (ps ! k) f) \<and>
      length (ps[k := merged]) = length ps \<and>
      (\<forall>j. j \<noteq> k \<longrightarrow> (ps[k := merged]) ! j = ps ! j)"
  proof (rule exI [of _ k], rule exI [of _ ?merged], intro conjI)
    show "k < length ps" by (rule first(1))
    show "has_id i (ps ! k)" by (rule first(2))
    show "\<forall>j<k. \<not> has_id i (ps ! j)" by (rule first(3))
    show "updateProfile e st now i updates =
        Inr (Some ?merged, writeData e st1 ''profiles'' (Doc ''profiles'' (ps[k := ?merged])))"
      by (rule updateProfile_found [OF read k])
    show "holds e (writeData e st1 ''profiles'' (Doc ''profiles'' (ps[k := ?merged])))
        ''profiles'' (Doc ''profiles'' (ps[k := ?merged]))"
      by (rule holds_writeData)
    show "js_get ?merged ''updatedAt'' = Some (JStr now)"
      by (simp add: get)
    show "\<forall>f v. f \<noteq> ''updatedAt'' \<and> js_get updates f = Some v \<longrightarrow> js_get ?merged f = Some v"
      by (simp add: get)
    show "\<forall>f. f \<noteq> ''updatedAt'' \<and> js_get updates f = None \<longrightarrow>
           js_get ?merged f = js_get (ps ! k) f"
      by (simp add: get)
    show "length (ps[k := ?merged]) = length ps" by simp
    show "\<forall>j. j \<noteq> k \<longrightarrow> (ps[k := ?merged]) ! j = ps ! j" by simp
  qed
qed

theorem updateProfile_merges_witness:
  "(\<exists>merged.
      updateProfile (node False) (writeData (node False) fresh ''profiles'' (Doc ''profiles'' [alice, bob]))
          ''2024-05-01T12:00:00.000Z'' ''p1''
          [(''name'', JStr ''Alicia''), (''updatedAt'', JStr ''1999-12-31T00:00:00.000Z'')] =
        Inr (Some merged,
             writeData (node False) (writeData (node False) fresh ''profiles'' (Doc ''profiles'' [alice, bob]))
               ''profiles'' (Doc ''profiles'' [merged, bob])) \<and>
      js_get merged ''updatedAt'' = Some (JStr ''2024-05-01T12:00:00.000Z'') \<and>
      js_get merged ''name'' = Some (JStr ''Alicia'') \<and>
      js_get merged ''votes'' = Some (JNum 3)) \<and>
   updateProfile (node True) (writeData (node True) fresh ''profiles'' (Doc ''profiles'' [alice, bob]))
       ''2024-05-01T12:00:00.000Z'' ''p9'' [(''name'', JStr ''Alicia'')] =
     Inr (None, writeData (node True) fresh ''profiles'' (Doc ''profiles'' [alice, bob]))"
proof -
  let ?l = "node False" and ?h = "node True"
  let ?sl = "writeData ?l fresh ''profiles'' (Doc ''profiles'' [alice, bob])"
  let ?sh = "writeData ?h fresh ''profiles'' (Doc ''profiles'' [alice, bob])"
  let ?u = "[(''name'', JStr ''Alicia''), (''updatedAt'', JStr ''1999-12-31T00:00:00.000Z'')]"
  let ?now = "''2024-05-01T12:00:00.000Z''"
  have rl: "readData ?l ?sl ''profiles'' (Doc ''profiles'' []) = Inr (Doc ''profiles'' [alice, bob], ?sl)"
    using profiles_safe by (intro stored_read) simp
  have rh: "readData ?h ?sh ''profiles'' (Doc ''profiles'' []) = Inr (Doc ''profiles'' [alice, bob], ?sh)"
    by (intro stored_read) simp
  have ou: "is_object ?u" "is_object [(''name'', JStr ''Alicia'')]"
    by (simp_all add: is_object_def)
  have op: "\<forall>p\<in>set [alice, bob]. is_object p"
    using sample_objects by simp
  from updateProfile_merges [OF rl ou(1) op, of "''p1''" ?now] sample_ids
  obtain k merged where k: "k < length [alice, bob]" "has_id ''p1'' ([alice, bob] ! k)"
    and res: "updateProfile ?l ?sl ?now ''p1'' ?u =
        Inr (Some merged, writeData ?l ?sl ''profiles'' (Doc ''profiles'' ([alice, bob][k := merged])))"
    and stamp: "js_get merged ''updatedAt'' = Some (JStr ?now)"
    and named: "\<forall>f v. f \<noteq> ''updatedAt'' \<and> js_get ?u f = Some v \<longrightarrow> js_get merged f = Some v"
    and kept: "\<forall>f. f \<noteq> ''updatedAt'' \<and> js_get ?u f = None \<longrightarrow> js_get merged f = js_get ([alice, bob] ! k) f"
    by auto
  from k sample_ids have k0: "k = 0" by (cases k) auto
  have "js_get ?u ''name'' = Some (JStr ''Alicia'')" "js_get ?u ''votes'' = None"
    "js_get alice ''votes'' = Some (JNum 3)"
    by (simp_all add: js_get_def alice_def)
  with named kept k0 have "js_get merged ''name'' = Some (JStr ''Alicia'')" "js_get merged ''votes'' = Some (JNum 3)"
    by auto
  with res stamp k0 have a: "\<exists>merged.
      updateProfile ?l ?sl ?now ''p1'' ?u =
        Inr (Some merged, writeData ?l ?sl ''profiles'' (Doc ''profiles'' [merged, bob])) \<and>
      js_get merged ''updatedAt'' = Some (JStr ?now) \<and>
      js_get merged ''name'' = Some (JStr ''Alicia'') \<and>
      js_get merged ''votes'' = Some (JNum 3)"
    by auto
  from updateProfile_merges [OF rh ou(2) op, of "''p9''" ?now] sample_ids
  have b: "updateProfile ?h ?sh ?now ''p9'' [(''name'', JStr ''Alicia'')] = Inr (None, ?sh)"
    by simp
  from a b show ?thesis by (rule conjI)
qed

section \<open>Votes and rank of a profile\<close>

lemma readData_frame:
  assumes "readData e st n1 d1 = Inr (D1, st1)" and "n1 \<noteq> n2"
  shows "map_sum id fst (readData e st1 n2 d2) = map_sum id fst (readData e st n2 d2)"
  using assms
  by (auto simp add: readData_def fs_def Let_def getFilePath_def
      split: if_splits option.splits)

lemma readData_frame_Inr:
  assumes "readData e st n1 d1 = Inr (D1, st1)" and "n1 \<noteq> n2"
    and "readData e st n2 d2 = Inr (D2, st2)"
  shows "\<exists>st3. readData e st1 n2 d2 = Inr (D2, st3)"
proof -
  from readData_frame [OF assms(1,2), of d2] assms(3)
  have "map_sum id fst (readData e st1 n2 d2) = Inr D2" by simp
  then show ?thesis by (cases "readData e st1 n2 d2") auto
qed

lemma getVotesForProfile_result:
  assumes "readData e st ''votes'' (Doc ''votes'' []) = Inr (Doc ''votes'' vs, st1)"
  shows "getVotesForProfile e st i =
           Inr (length (filter (\<lambda>v. js_get v ''profileId'' = Some (JStr i)) vs), st1)"
  using assms by (simp add: getVotesForProfile_def getVotes_def doc_get_def)

lemma getProfileById_result:
  assumes "readData e st ''profiles'' (Doc ''profiles'' []) = Inr (Doc ''profiles'' ps, st1)"
  shows "getProfileById e st i = Inr (find (has_id i) ps, st1)"
  using assms by (simp add: getProfileById_def getAllProfiles_def doc_get_def)

lemma votes_rank_object: "is_object [(''votes'', JNum n), (''rank'', JStr r)]"
  by (simp add: is_object_def)

lemma votes_safe: "json_safe (node False) (Doc ''votes'' [vote1, vote2, vote3])"
proof -
  have "json_parse (json_stringify (Doc ''votes'' [vote1, vote2, vote3])) = Some (Doc ''votes'' [vote1, vote2, vote3])"
    by code_simp
  then show ?thesis by (simp add: json_safe_def)
qed

text \<open>
  C1. Given the stored votes collection \<open>vs\<close> and profiles collection \<open>ps\<close> (objects),
  let \<open>n\<close> be the number of votes whose \<open>profileId\<close> is the id. If a profile has the id,
  \<open>updateProfileVotesAndRank\<close> returns the updated profile \<open>p'\<close>, whose \<open>votes\<close> is \<open>n\<close>
  and whose \<open>rank\<close> is \<open>calculateRank n\<close>; the store then holds the collection with the
  first such profile replaced by \<open>p'\<close>, in which the profile found by the id is \<open>p'\<close>, and
  \<open>getProfileById\<close> returns it (locally: when JSON round-trips the written document).
  If no profile has the id, the result is \<open>None\<close> and the profiles collection reads as
  before.
\<close>

theorem updateProfileVotesAndRank_sets_both:
  fixes vs :: "entity list" and i :: string
  assumes votes: "readData e st ''votes'' (Doc ''votes'' []) = Inr (Doc ''votes'' vs, sv)"
    and profiles: "readData e st ''profiles'' (Doc ''profiles'' []) = Inr (Doc ''profiles'' ps, sp)"
    and objects: "\<forall>p\<in>set ps. is_object p"
  defines "n \<equiv> int (length (filter (\<lambda>v. js_get v ''profileId'' = Some (JStr i)) vs))"
  shows "((\<forall>p\<in>set ps. \<not> has_id i p) \<longrightarrow>
            (\<exists>st'. updateProfileVotesAndRank e st now i = Inr (None, st') \<and>
                   ((\<not> isVercel e \<longrightarrow> json_safe e (Doc ''profiles'' [])) \<longrightarrow>
                      readData e st' ''profiles'' (Doc ''profiles'' []) = Inr (Doc ''profiles'' ps, st')))) \<and>
         ((\<exists>p\<in>set ps. has_id i p) \<longrightarrow>
            (\<exists>k p' st'.
               k < length ps \<and> has_id i (ps ! k) \<and> (\<forall>j<k. \<not> has_id i (ps ! j)) \<and>
               updateProfileVotesAndRank e st now i = Inr (Some p', st') \<and>
               js_get p' ''votes'' = Some (JNum n) \<and>
               js_get p' ''rank'' = Some (JStr (calculateRank n)) \<and>
               holds e st' ''profiles'' (Doc ''profiles'' (ps[k := p'])) \<and>
               find (has_id i) (ps[k := p']) = Some p' \<and>
               ((\<not> isVercel e \<longrightarrow> json_safe e (Doc ''profiles'' (ps[k := p']))) \<longrightarrow>
                  getProfileById e st' i = Inr (Some p', st'))))"
proof -
  let ?updates = "[(''votes'', JNum n), (''rank'', JStr (calculateRank n))]"
  have count: "getVotesForProfile e st i = Inr (nat n, sv)"
    using getVotesForProfile_result [OF votes] by (simp add: n_def)
  from readData_frame_Inr [OF votes _ profiles]
  obtain s2 where s2: "readData e sv ''profiles'' (Doc ''profiles'' []) = Inr (Doc ''profiles'' ps, s2)"
    by auto
  have run: "updateProfileVotesAndRank e st now i = updateProfile e sv now i ?updates"
    using count by (simp add: updateProfileVotesAndRank_def n_def)
  show ?thesis
  proof (intro conjI impI)
    assume none: "\<forall>p\<in>set ps. \<not> has_id i p"
    have res: "updateProfileVotesAndRank e st now i = Inr (None, s2)"
      using updateProfile_missing [OF s2 none] run by simp
    have again: "readData e s2 ''profiles'' (Doc ''profiles'' []) = Inr (Doc ''profiles'' ps, s2)"
      if "\<not> isVercel e \<longrightarrow> json_safe e (Doc ''profiles'' [])"
      using that by (rule readData_again [OF s2])
    show "\<exists>st'. updateProfileVotesAndRank e st now i = Inr (None, st') \<and>
        ((\<not> isVercel e \<longrightarrow> json_safe e (Doc ''profiles'' [])) \<longrightarrow>
           readData e st' ''profiles'' (Doc ''profiles'' []) = Inr (Doc ''profiles'' ps, st'))"
    proof (rule exI [of _ s2], intro conjI)
      show "updateProfileVotesAndRank e st now i = Inr (None, s2)" by (rule res)
      show "(\<not> isVercel e \<longrightarrow> json_safe e (Doc ''profiles'' [])) \<longrightarrow>
           readData e s2 ''profiles'' (Doc ''profiles'' []) = Inr (Doc ''profiles'' ps, s2)"
        using again by (rule impI)
    qed
  next
    assume ex: "\<exists>p\<in>set ps. has_id i p"
    from findIndex_exists [OF ex] obtain k where k: "findIndex (has_id i) ps = Some k" ..
    let ?p' = "AList.update ''updatedAt'' (JStr now) (assign (assign [] (ps ! k)) ?updates)"
    let ?st' = "writeData e s2 ''profiles'' (Doc ''profiles'' (ps[k := ?p']))"
    from findIndex_Some [OF k]
    have first: "k < length ps" "has_id i (ps ! k)" "\<forall>j<k. \<not> has_id i (ps ! j)" by blast+
    from first(1) objects have obj: "is_object (ps ! k)" by simp
    note get = js_get_merged [OF obj votes_rank_object, of now n "calculateRank n"]
    have res: "updateProfileVotesAndRank e st now i = Inr (Some ?p', ?st')"
      using updateProfile_found [OF s2 k] run by simp
    have v: "js_get ?p' ''votes'' = Some (JNum n)"
      by (simp add: get js_get_Cons js_get_Nil)
    have r: "js_get ?p' ''rank'' = Some (JStr (calculateRank n))"
      by (simp add: get js_get_Cons js_get_Nil)
    have "js_get ?p' ''id'' = js_get (ps ! k) ''id''"
      by (simp add: get js_get_Cons js_get_Nil)
    with first(2) have id: "has_id i ?p'" by (simp add: has_id_def)
    have f: "find (has_id i) (ps[k := ?p']) = Some ?p'"
      using find_after_update [of "has_id i" ps k "?p'"] k id by simp
    have h: "holds e ?st' ''profiles'' (Doc ''profiles'' (ps[k := ?p']))"
      by (rule holds_writeData)
    have reread: "getProfileById e ?st' i = Inr (Some ?p', ?st')"
      if "\<not> isVercel e \<longrightarrow> json_safe e (Doc ''profiles'' (ps[k := ?p']))"
      using getProfileById_result [OF readData_after_write [OF that]] f by simp
    show "\<exists>k p' st'.
        k < length ps \<and> has_id i (ps ! k) \<and> (\<forall>j<k. \<not> has_id i (ps ! j)) \<and>
        updateProfileVotesAndRank e st now i = Inr (Some p', st') \<and>
        js_get p' ''votes'' = Some (JNum n) \<and>
        js_get p' ''rank'' = Some (JStr (calculateRank n)) \<and>
        holds e st' ''profiles'' (Doc ''profiles'' (ps[k := p'])) \<and>
        find (has_id i) (ps[k := p']) = Some p' \<and>
        ((\<not> isVercel e \<longrightarrow> json_safe e (Doc ''profiles'' (ps[k := p']))) \<longrightarrow>
           getProfileById e st' i = Inr (Some p', st'))"
    proof (rule exI [of _ k], rule exI [of _ ?p'], rule exI [of _ ?st'], intro conjI)
      show "k < length ps" by (rule first(1))
      show "has_id i (ps ! k)" by (rule first(2))
      show "\<forall>j<k. \<not> has_id i (ps ! j)" by (rule first(3))
      show "updateProfileVotesAndRank e st now i = Inr (Some ?p', ?st')" by (rule res)
      show "js_get ?p' ''votes'' = Some (JNum n)" by (rule v)
      show "js_get ?p' ''rank'' = Some (JStr (calculateRank n))" by (rule r)
      show "holds e ?st' ''profiles'' (Doc ''profiles'' (ps[k := ?p']))" by (rule h)
      show "find (has_id i) (ps[k := ?p']) = Some ?p'" by (rule f)
      show "(\<not> isVercel e \<longrightarrow> json_safe e (Doc ''profiles'' (ps[k := ?p']))) \<longrightarrow>
           getProfileById e ?st' i = Inr (Some ?p', ?st')"
        using reread by (rule impI)
    qed
  qed
qed

theorem updateProfileVotesAndRank_sets_both_witness:
  "(\<exists>p' st'.
      updateProfileVotesAndRank (node False)
          (writeData (node False) (writeData (node False) fresh ''votes'' (Doc ''votes'' [vote1, vote2, vote3]))
             ''profiles'' (Doc ''profiles'' [alice, bob]))
          ''2024-05-01T12:00:00.000Z'' ''p1'' = Inr (Some p', st') \<and>
      js_get p' ''votes'' = Some (JNum 2) \<and> js_get p' ''rank'' = Some (JStr ''bronze'') \<and>
      holds (node False) st' ''profiles'' (Doc ''profiles'' [p', bob])) \<and>
   (\<exists>st'.
      updateProfileVotesAndRank (node True)
          (writeData (node True) (writeData (node True) fresh ''votes'' (Doc ''votes'' [vote1, vote2, vote3]))
             ''profiles'' (Doc ''profiles'' [alice, bob]))
          ''2024-05-01T12:00:00.000Z'' ''p9'' = Inr (None, st') \<and>
      readData (node True) st' ''profiles'' (Doc ''profiles'' []) = Inr (Doc ''profiles'' [alice, bob], st'))"
proof -
  let ?l = "node False" and ?h = "node True"
  let ?V = "Doc ''votes'' [vote1, vote2, vote3]" and ?P = "Doc ''profiles'' [alice, bob]"
  let ?sl = "writeData ?l (writeData ?l fresh ''votes'' ?V) ''profiles'' ?P"
  let ?sh = "writeData ?h (writeData ?h fresh ''votes'' ?V) ''profiles'' ?P"
  let ?now = "''2024-05-01T12:00:00.000Z''"
  have hv: "holds ?l ?sl ''votes'' ?V" "holds ?h ?sh ''votes'' ?V"
    by (simp_all add: holds_def writeData_def fs_def getFilePath_def Let_def)
  have vl: "readData ?l ?sl ''votes'' (Doc ''votes'' []) = Inr (?V, ?sl)"
    using readData_holds [OF hv(1), of "Doc ''votes'' []"] votes_safe by simp
  have vh: "readData ?h ?sh ''votes'' (Doc ''votes'' []) = Inr (?V, ?sh)"
    using readData_holds [OF hv(2), of "Doc ''votes'' []"] by simp
  have pl: "readData ?l ?sl ''profiles'' (Doc ''profiles'' []) = Inr (?P, ?sl)"
    using profiles_safe by (intro stored_read) simp
  have ph: "readData ?h ?sh ''profiles'' (Doc ''profiles'' []) = Inr (?P, ?sh)"
    by (intro stored_read) simp
  have op: "\<forall>p\<in>set [alice, bob]. is_object p"
    using sample_objects by simp
  have n1: "int (length (filter (\<lambda>v. js_get v ''profileId'' = Some (JStr ''p1'')) [vote1, vote2, vote3])) = 2"
    by (simp add: js_get_def vote1_def vote2_def vote3_def)
  from updateProfileVotesAndRank_sets_both [OF vl pl op, of "''p1''" ?now] sample_ids n1
  obtain k p' st' where k: "k < length [alice, bob]" "has_id ''p1'' ([alice, bob] ! k)"
    and res: "updateProfileVotesAndRank ?l ?sl ?now ''p1'' = Inr (Some p', st')"
    and vr: "js_get p' ''votes'' = Some (JNum 2)" "js_get p' ''rank'' = Some (JStr (calculateRank 2))"
    and h: "holds ?l st' ''profiles'' (Doc ''profiles'' ([alice, bob][k := p']))"
    by auto
  from k sample_ids have k0: "k = 0" by (cases k) auto
  have "calculateRank 2 = ''bronze''" by (simp add: calculateRank_def)
  with res vr h k0 have a: "\<exists>p' st'.
      updateProfileVotesAndRank ?l ?sl ?now ''p1'' = Inr (Some p', st') \<and>
      js_get p' ''votes'' = Some (JNum 2) \<and> js_get p' ''rank'' = Some (JStr ''bronze'') \<and>
      holds ?l st' ''profiles'' (Doc ''profiles'' [p', bob])"
    by auto
  from updateProfileVotesAndRank_sets_both [OF vh ph op, of "''p9''" ?now] sample_ids
  have b: "\<exists>st'. updateProfileVotesAndRank ?h ?sh ?now ''p9'' = Inr (None, st') \<and>
      readData ?h st' ''profiles'' (Doc ''profiles'' []) = Inr (?P, st')"
    by simp
  from a b show ?thesis by (rule conjI)
qed

section \<open>Has the visitor voted today\<close>

lemma prefix_take: "prefix xs ys \<longleftrightarrow> take (length xs) ys = xs"
  by (metis append_eq_conv_conj append_take_drop_id prefix_def)

lemma some_vote_today_typed:
  assumes "\<forall>v\<in>set vs.
             js_get v ''voterId'' = Some (JStr V) \<and> js_get v ''profileId'' = Some (JStr P) \<longrightarrow>
             (\<exists>s. js_get v ''createdAt'' = Some (JStr s))"
  shows "some_vote_today V P today vs = Inr (\<exists>v\<in>set vs. vote_matches V P today v)"
  using assms
proof (induction vs)
  case Nil
  then show ?case by simp
next
  case (Cons v vs)
  from Cons have IH: "some_vote_today V P today vs = Inr (\<exists>v\<in>set vs. vote_matches V P today v)"
    by simp
  show ?case
  proof (cases "js_get v ''voterId'' = Some (JStr V) \<and> js_get v ''profileId'' = Some (JStr P)")
    case True
    with Cons.prems obtain s where s: "js_get v ''createdAt'' = Some (JStr s)" by auto
    from True show ?thesis
      by (auto simp add: s IH vote_matches_def prefix_take)
  next
    case False
    then show ?thesis
      by (auto simp add: IH vote_matches_def)
  qed
qed

lemma today_of_iso: "CHR ''T'' \<notin> set d \<Longrightarrow> today_of (d @ CHR ''T'' # t) = d"
  by (induction d) (auto simp add: today_of_def)

lemma sample_today: "today_of ''2024-05-01T12:00:00.000Z'' = ''2024-05-01''"
  by (simp add: today_of_def)

text \<open>
  C7. Given the stored votes collection, each vote by \<open>V\<close> for \<open>P\<close> with a text
  \<open>createdAt\<close>:
  \<open>hasVotedToday\<close> returns, with the store as the read left it, whether some vote has
  \<open>voterId\<close> \<open>V\<close>, \<open>profileId\<close> \<open>P\<close> and a \<open>createdAt\<close> whose first characters are the
  current date (the part of the current ISO time before its \<open>T\<close>). So a vote of that pair
  whose \<open>createdAt\<close> is today's date followed by any time makes it true, and when every
  vote of that pair starts with a different day it is false.
\<close>

theorem hasVotedToday_iff:
  assumes votes: "readData e st ''votes'' (Doc ''votes'' []) = Inr (Doc ''votes'' vs, st1)"
    and typed: "\<forall>v\<in>set vs.
                  js_get v ''voterId'' = Some (JStr V) \<and> js_get v ''profileId'' = Some (JStr P) \<longrightarrow>
                  (\<exists>s. js_get v ''createdAt'' = Some (JStr s))"
  shows "hasVotedToday e st now V P =
           Inr (\<exists>v\<in>set vs.
                  js_get v ''voterId'' = Some (JStr V) \<and> js_get v ''profileId'' = Some (JStr P) \<and>
                  (\<exists>s. js_get v ''createdAt'' = Some (JStr s) \<and>
                       take (length (today_of now)) s = today_of now), st1) \<and>
         ((\<exists>v\<in>set vs. \<exists>time.
              js_get v ''voterId'' = Some (JStr V) \<and> js_get v ''profileId'' = Some (JStr P) \<and>
              js_get v ''createdAt'' = Some (JStr (today_of now @ time))) \<longrightarrow>
            hasVotedToday e st now V P = Inr (True, st1)) \<and>
         ((\<forall>v\<in>set vs.
              js_get v ''voterId'' = Some (JStr V) \<and> js_get v ''profileId'' = Some (JStr P) \<longrightarrow>
              (\<exists>day time. js_get v ''createdAt'' = Some (JStr (day @ time)) \<and>
                  length day = length (today_of now) \<and> day \<noteq> today_of now)) \<longrightarrow>
            hasVotedToday e st now V P = Inr (False, st1))"
proof -
  have run: "hasVotedToday e st now V P = Inr (\<exists>v\<in>set vs. vote_matches V P (today_of now) v, st1)"
    using votes some_vote_today_typed [OF typed, of "today_of now"]
    by (simp add: hasVotedToday_def getVotes_def doc_get_def)
  have 1: "hasVotedToday e st now V P =
           Inr (\<exists>v\<in>set vs.
                  js_get v ''voterId'' = Some (JStr V) \<and> js_get v ''profileId'' = Some (JStr P) \<and>
                  (\<exists>s. js_get v ''createdAt'' = Some (JStr s) \<and>
                       take (length (today_of now)) s = today_of now), st1)"
    using run by (simp add: vote_matches_def)
  have 2: "hasVotedToday e st now V P = Inr (True, st1)"
    if "\<exists>v\<in>set vs. \<exists>time.
              js_get v ''voterId'' = Some (JStr V) \<and> js_get v ''profileId'' = Some (JStr P) \<and>
              js_get v ''createdAt'' = Some (JStr (today_of now @ time))"
  proof -
    from that obtain v time where v: "v \<in> set vs" "js_get v ''voterId'' = Some (JStr V)"
      "js_get v ''profileId'' = Some (JStr P)"
      "js_get v ''createdAt'' = Some (JStr (today_of now @ time))"
      by blast
    then have "vote_matches V P (today_of now) v"
      by (simp add: vote_matches_def)
    with v(1) have "\<exists>v\<in>set vs. vote_matches V P (today_of now) v" ..
    with run show ?thesis by simp
  qed
  have 3: "hasVotedToday e st now V P = Inr (False, st1)"
    if old: "\<forall>v\<in>set vs.
              js_get v ''voterId'' = Some (JStr V) \<and> js_get v ''profileId'' = Some (JStr P) \<longrightarrow>
              (\<exists>day time. js_get v ''createdAt'' = Some (JStr (day @ time)) \<and>
                  length day = length (today_of now) \<and> day \<noteq> today_of now)"
  proof -
    have "\<not> vote_matches V P (today_of now) v" if "v \<in> set vs" for v
    proof
      assume m: "vote_matches V P (today_of now) v"
      then obtain s where s: "js_get v ''createdAt'' = Some (JStr s)"
        "take (length (today_of now)) s = today_of now"
        by (auto simp add: vote_matches_def)
      from m have "js_get v ''voterId'' = Some (JStr V) \<and> js_get v ''profileId'' = Some (JStr P)"
        by (simp add: vote_matches_def)
      with old that have "\<exists>day time. js_get v ''createdAt'' = Some (JStr (day @ time)) \<and>
          length day = length (today_of now) \<and> day \<noteq> today_of now"
        by blast
      then obtain day time where d: "js_get v ''createdAt'' = Some (JStr (day @ time))"
        "length day = length (today_of now)" "day \<noteq> today_of now"
        by blast
      from s(1) d(1) have "s = day @ time" by simp
      with s(2) d(2) have "day = today_of now" by simp
      with d(3) show False by simp
    qed
    with run show ?thesis by simp
  qed
  from 1 2 3 show ?thesis by (intro conjI impI)
qed

theorem hasVotedToday_iff_witness:
  "hasVotedToday (node False) (writeData (node False) fresh ''votes'' (Doc ''votes'' [vote1, vote2, vote3]))
       ''2024-05-01T12:00:00.000Z'' ''v1'' ''p1'' =
     Inr (True, writeData (node False) fresh ''votes'' (Doc ''votes'' [vote1, vote2, vote3])) \<and>
   hasVotedToday (node False) (writeData (node False) fresh ''votes'' (Doc ''votes'' [vote1, vote2, vote3]))
       ''2024-05-01T12:00:00.000Z'' ''v2'' ''p1'' =
     Inr (False, writeData (node False) fresh ''votes'' (Doc ''votes'' [vote1, vote2, vote3]))"
proof -
  let ?l = "node False"
  let ?s = "writeData ?l fresh ''votes'' (Doc ''votes'' [vote1, vote2, vote3])"
  let ?now = "''2024-05-01T12:00:00.000Z''"
  have r: "readData ?l ?s ''votes'' (Doc ''votes'' []) = Inr (Doc ''votes'' [vote1, vote2, vote3], ?s)"
    using votes_safe by (intro stored_read) simp
  have typed: "\<forall>v\<in>set [vote1, vote2, vote3].
      js_get v ''voterId'' = Some (JStr V) \<and> js_get v ''profileId'' = Some (JStr P) \<longrightarrow>
      (\<exists>s. js_get v ''createdAt'' = Some (JStr s))" for V P
    by (simp add: js_get_def vote1_def vote2_def vote3_def)
  have today: "\<exists>v\<in>set [vote1, vote2, vote3]. \<exists>time.
      js_get v ''voterId'' = Some (JStr ''v1'') \<and> js_get v ''profileId'' = Some (JStr ''p1'') \<and>
      js_get v ''createdAt'' = Some (JStr (today_of ?now @ time))"
    by (simp add: sample_today js_get_def vote1_def)
  have yesterday: "\<forall>v\<in>set [vote1, vote2, vote3].
      js_get v ''voterId'' = Some (JStr ''v2'') \<and> js_get v ''profileId'' = Some (JStr ''p1'') \<longrightarrow>
      (\<exists>day time. js_get v ''createdAt'' = Some (JStr (day @ time)) \<and>
          length day = length (today_of ?now) \<and> day \<noteq> today_of ?now)"
  proof -
    have "js_get vote2 ''createdAt'' = Some (JStr (''2024-04-30'' @ ''T23:59:59.000Z''))"
      by (simp add: js_get_def vote2_def)
    moreover have "length ''2024-04-30'' = length (today_of ?now)" "''2024-04-30'' \<noteq> today_of ?now"
      by (simp_all add: sample_today)
    ultimately have "\<exists>day time. js_get vote2 ''createdAt'' = Some (JStr (day @ time)) \<and>
          length day = length (today_of ?now) \<and> day \<noteq> today_of ?now"
      by blast
    moreover have "js_get vote1 ''voterId'' \<noteq> Some (JStr ''v2'')" "js_get vote3 ''voterId'' \<noteq> Some (JStr ''v2'')"
      by (simp_all add: js_get_def vote1_def vote3_def)
    ultimately show ?thesis by simp
  qed
  from hasVotedToday_iff [OF r typed, of ?now "''v1''" "''p1''"] today
  have a: "hasVotedToday ?l ?s ?now ''v1'' ''p1'' = Inr (True, ?s)" by blast
  from hasVotedToday_iff [OF r typed, of ?now "''v2''" "''p1''"] yesterday
  have b: "hasVotedToday ?l ?s ?now ''v2'' ''p1'' = Inr (False, ?s)" by blast
  from a b show ?thesis by (rule conjI)
qed

section \<open>Chat retention\<close>

lemma length_slice_last: "length (slice_last n xs) = min n (length xs)"
  by (simp add: slice_last_def)

lemma slice_last_short: "length xs \<le> n \<Longrightarrow> slice_last n xs = xs"
  by (simp add: slice_last_def)

lemma suffix_slice_last: "suffix (slice_last n xs) xs"
  by (simp add: slice_last_def suffix_drop)

lemma slice_last_snoc: "0 < n \<Longrightarrow> slice_last n (xs @ [x]) = slice_last (n - 1) xs @ [x]"
  by (simp add: slice_last_def)

lemma slice_last_append: "slice_last n (slice_last n xs @ ys) = slice_last n (xs @ ys)"
proof (cases "length xs \<le> n")
  case True
  then show ?thesis by (simp add: slice_last_short)
next
  case False
  then have "length (slice_last n xs) = n" by (simp add: length_slice_last)
  then have "slice_last n (slice_last n xs @ ys) = drop (length ys) (drop (length xs - n) xs @ ys)"
    by (simp add: slice_last_def)
  also have "drop (length xs - n) xs @ ys = drop (length xs - n) (xs @ ys)"
    by simp
  also have "drop (length ys) (drop (length xs - n) (xs @ ys)) = drop (length ys + (length xs - n)) (xs @ ys)"
    by (simp only: drop_drop)
  also have "length ys + (length xs - n) = length (xs @ ys) - n"
    using False by simp
  finally show ?thesis by (simp only: slice_last_def)
qed

lemma addChatMessage_result:
  assumes "readData e st ''chat'' (Doc ''messages'' []) = Inr (Doc ''messages'' ms0, st1)"
  shows "addChatMessage e st m =
           Inr (m, writeData e st1 ''chat'' (Doc ''messages'' (slice_last 500 (ms0 @ [m]))))"
proof (cases "length (ms0 @ [m]) > 500")
  case True
  with assms show ?thesis
    by (simp add: addChatMessage_def doc_get_def Let_def)
next
  case False
  then have "slice_last 500 (ms0 @ [m]) = ms0 @ [m]"
    by (intro slice_last_short) simp
  with assms False show ?thesis
    by (simp add: addChatMessage_def doc_get_def Let_def)
qed

lemma addChatMessages_result:
  assumes "readData e st ''chat'' (Doc ''messages'' []) = Inr (Doc ''messages'' ms0, st1)"
    and "\<not> isVercel e \<longrightarrow>
           (\<forall>k. 0 < k \<and> k \<le> length ms \<longrightarrow> json_safe e (Doc ''messages'' (slice_last 500 (ms0 @ take k ms))))"
  shows "\<exists>st' st''. addChatMessages e st ms = Inr st' \<and>
           readData e st' ''chat'' (Doc ''messages'' []) =
             Inr (Doc ''messages'' (if ms = [] then ms0 else slice_last 500 (ms0 @ ms)), st'')"
  using assms
proof (induction ms arbitrary: st ms0 st1)
  case Nil
  then show ?case by auto
next
  case (Cons m ms)
  let ?K = "slice_last 500 (ms0 @ [m])"
  let ?st' = "writeData e st1 ''chat'' (Doc ''messages'' ?K)"
  have step: "addChatMessage e st m = Inr (m, ?st')"
    by (rule addChatMessage_result [OF Cons.prems(1)])
  have safe1: "\<not> isVercel e \<longrightarrow> json_safe e (Doc ''messages'' ?K)"
    using Cons.prems(2) by (auto dest: spec [of _ 1])
  have r: "readData e ?st' ''chat'' (Doc ''messages'' []) = Inr (Doc ''messages'' ?K, ?st')"
    by (rule readData_after_write [OF safe1])
  have safe: "\<not> isVercel e \<longrightarrow>
      (\<forall>k. 0 < k \<and> k \<le> length ms \<longrightarrow> json_safe e (Doc ''messages'' (slice_last 500 (?K @ take k ms))))"
  proof (intro impI allI)
    fix k
    assume l: "\<not> isVercel e" and k: "0 < k \<and> k \<le> length ms"
    with Cons.prems(2) have "json_safe e (Doc ''messages'' (slice_last 500 (ms0 @ take (Suc k) (m # ms))))"
      by (auto dest: spec [of _ "Suc k"])
    moreover have "slice_last 500 (?K @ take k ms) = slice_last 500 (ms0 @ take (Suc k) (m # ms))"
      using slice_last_append [of 500 "ms0 @ [m]" "take k ms"] by simp
    ultimately show "json_safe e (Doc ''messages'' (slice_last 500 (?K @ take k ms)))"
      by simp
  qed
  from Cons.IH [OF r safe] obtain st2 st3 where
    rest: "addChatMessages e ?st' ms = Inr st2"
    "readData e st2 ''chat'' (Doc ''messages'' []) =
       Inr (Doc ''messages'' (if ms = [] then ?K else slice_last 500 (?K @ ms)), st3)"
    by blast
  have "(if ms = [] then ?K else slice_last 500 (?K @ ms)) = slice_last 500 (ms0 @ m # ms)"
    using slice_last_append [of 500 "ms0 @ [m]" ms] by simp
  with rest step show ?case by auto
qed

lemma chat_safe: "json_safe (node False) (Doc ''messages'' [chat_msg 0, chat_msg 1])"
proof -
  have "json_parse (json_stringify (Doc ''messages'' [chat_msg 0, chat_msg 1])) =
      Some (Doc ''messages'' [chat_msg 0, chat_msg 1])"
    by code_simp
  then show ?thesis by (simp add: json_safe_def)
qed

text \<open>
  C6. Given the stored chat collection \<open>ms0\<close>, \<open>addChatMessage m\<close> returns \<open>m\<close> and writes
  the last 500 of \<open>ms0\<close> followed by \<open>m\<close>: at most 500 messages, namely the newest 499
  of \<open>ms0\<close> in their order and then \<open>m\<close>. Inserting 501 messages one after another into
  an empty collection (locally: when JSON round-trips each intermediate document) leaves
  a store that reads as the last 500 of them in insertion order: exactly 500 messages,
  and, the messages being distinct, without the first one.
\<close>

theorem addChatMessage_retention:
  "(readData e st ''chat'' (Doc ''messages'' []) = Inr (Doc ''messages'' ms0, st1) \<longrightarrow>
      addChatMessage e st m =
        Inr (m, writeData e st1 ''chat'' (Doc ''messages'' (slice_last 500 (ms0 @ [m])))) \<and>
      holds e (writeData e st1 ''chat'' (Doc ''messages'' (slice_last 500 (ms0 @ [m]))))
        ''chat'' (Doc ''messages'' (slice_last 500 (ms0 @ [m]))) \<and>
      length (slice_last 500 (ms0 @ [m])) \<le> 500 \<and>
      slice_last 500 (ms0 @ [m]) = drop (length ms0 - 499) ms0 @ [m]) \<and>
   (readData e st ''chat'' (Doc ''messages'' []) = Inr (Doc ''messages'' [], st1) \<and>
    length ms = 501 \<and>
    (\<not> isVercel e \<longrightarrow>
       (\<forall>k. 0 < k \<and> k \<le> 501 \<longrightarrow> json_safe e (Doc ''messages'' (slice_last 500 (take k ms))))) \<longrightarrow>
      (\<exists>st' st''. addChatMessages e st ms = Inr st' \<and>
          readData e st' ''chat'' (Doc ''messages'' []) = Inr (Doc ''messages'' (tl ms), st'')) \<and>
      length (tl ms) = 500 \<and>
      (distinct ms \<longrightarrow> hd ms \<notin> set (tl ms)))"
proof (intro conjI impI)
  assume r: "readData e st ''chat'' (Doc ''messages'' []) = Inr (Doc ''messages'' ms0, st1)"
  show "addChatMessage e st m =
        Inr (m, writeData e st1 ''chat'' (Doc ''messages'' (slice_last 500 (ms0 @ [m]))))"
    by (rule addChatMessage_result [OF r])
  show "holds e (writeData e st1 ''chat'' (Doc ''messages'' (slice_last 500 (ms0 @ [m]))))
        ''chat'' (Doc ''messages'' (slice_last 500 (ms0 @ [m])))"
    by (rule holds_writeData)
  show "length (slice_last 500 (ms0 @ [m])) \<le> 500"
    by (simp add: length_slice_last)
  show "slice_last 500 (ms0 @ [m]) = drop (length ms0 - 499) ms0 @ [m]"
    by (simp add: slice_last_def)
next
  assume h: "readData e st ''chat'' (Doc ''messages'' []) = Inr (Doc ''messages'' [], st1) \<and>
    length ms = 501 \<and>
    (\<not> isVercel e \<longrightarrow>
       (\<forall>k. 0 < k \<and> k \<le> 501 \<longrightarrow> json_safe e (Doc ''messages'' (slice_last 500 (take k ms)))))"
  then have r: "readData e st ''chat'' (Doc ''messages'' []) = Inr (Doc ''messages'' [], st1)"
    and len: "length ms = 501"
    and safe: "\<not> isVercel e \<longrightarrow>
       (\<forall>k. 0 < k \<and> k \<le> length ms \<longrightarrow> json_safe e (Doc ''messages'' (slice_last 500 ([] @ take k ms))))"
    by simp_all
  from len have ne: "ms \<noteq> []" by auto
  from len have "slice_last 500 ms = drop 1 ms" by (simp add: slice_last_def)
  then have tl: "slice_last 500 ([] @ ms) = tl ms" by (simp add: drop_Suc)
  from addChatMessages_result [OF r safe] ne tl
  show "\<exists>st' st''. addChatMessages e st ms = Inr st' \<and>
          readData e st' ''chat'' (Doc ''messages'' []) = Inr (Doc ''messages'' (tl ms), st'')"
    by simp
  from len show "length (tl ms) = 500" by simp
  assume "distinct ms"
  with ne show "hd ms \<notin> set (tl ms)" by (cases ms) auto
qed

theorem addChatMessage_retention_witness:
  "addChatMessage (node False)
       (writeData (node False) fresh ''chat'' (Doc ''messages'' [chat_msg 0, chat_msg 1])) (chat_msg 2) =
     Inr (chat_msg 2,
          writeData (node False)
            (writeData (node False) fresh ''chat'' (Doc ''messages'' [chat_msg 0, chat_msg 1]))
            ''chat'' (Doc ''messages'' [chat_msg 0, chat_msg 1, chat_msg 2])) \<and>
   (\<exists>st' st''. addChatMessages (node True) fresh (map chat_msg [0..<501]) = Inr st' \<and>
       readData (node True) st' ''chat'' (Doc ''messages'' []) =
         Inr (Doc ''messages'' (map chat_msg [1..<501]), st'')) \<and>
   length (map chat_msg [1..<501]) = 500 \<and>
   chat_msg 0 \<notin> set (map chat_msg [1..<501])"
proof -
  let ?l = "node False" and ?h = "node True"
  let ?s = "writeData ?l fresh ''chat'' (Doc ''messages'' [chat_msg 0, chat_msg 1])"
  let ?ms = "map chat_msg [0..<501]"
  have r: "readData ?l ?s ''chat'' (Doc ''messages'' []) = Inr (Doc ''messages'' [chat_msg 0, chat_msg 1], ?s)"
    using chat_safe by (intro stored_read) simp
  have short: "slice_last 500 ([chat_msg 0, chat_msg 1] @ [chat_msg 2]) = [chat_msg 0, chat_msg 1, chat_msg 2]"
    by (simp add: slice_last_def)
  from addChatMessage_retention [of ?l ?s "[chat_msg 0, chat_msg 1]" ?s "chat_msg 2"] r short
  have a: "addChatMessage ?l ?s (chat_msg 2) =
     Inr (chat_msg 2, writeData ?l ?s ''chat'' (Doc ''messages'' [chat_msg 0, chat_msg 1, chat_msg 2]))"
    by simp
  have cold: "readData ?h fresh ''chat'' (Doc ''messages'' []) = Inr (Doc ''messages'' [], fresh)"
    by (simp add: readData_def fresh_def)
  have len: "length ?ms = 501" by simp
  have inj: "inj chat_msg" by (simp add: inj_on_def chat_msg_def)
  then have dist: "distinct ?ms" by (simp add: distinct_map inj_on_def)
  have tl: "tl ?ms = map chat_msg [1..<501]"
    by (simp flip: map_tl)
  have hd: "hd ?ms = chat_msg 0"
    by (simp add: hd_map upt_rec)
  have pre: "readData ?h fresh ''chat'' (Doc ''messages'' []) = Inr (Doc ''messages'' [], fresh) \<and>
    length ?ms = 501 \<and>
    (\<not> isVercel ?h \<longrightarrow>
       (\<forall>k. 0 < k \<and> k \<le> 501 \<longrightarrow> json_safe ?h (Doc ''messages'' (slice_last 500 (take k ?ms)))))"
    using cold len by simp
  from addChatMessage_retention [of ?h fresh _ fresh _ ?ms] pre dist
  have "(\<exists>st' st''. addChatMessages ?h fresh ?ms = Inr st' \<and>
          readData ?h st' ''chat'' (Doc ''messages'' []) = Inr (Doc ''messages'' (tl ?ms), st'')) \<and>
      length (tl ?ms) = 500 \<and> hd ?ms \<notin> set (tl ?ms)"
    by blast
  with tl hd have b: "(\<exists>st' st''. addChatMessages ?h fresh ?ms = Inr st' \<and>
       readData ?h st' ''chat'' (Doc ''messages'' []) =
         Inr (Doc ''messages'' (map chat_msg [1..<501]), st'')) \<and>
   length (map chat_msg [1..<501]) = 500 \<and>
   chat_msg 0 \<notin> set (map chat_msg [1..<501])"
    by simp
  from a b show ?thesis by (rule conjI)
qed

section \<open>The order of posts\<close>

lemma not_after_key:
  assumes "created e a \<noteq> None" "created e b \<noteq> None"
  shows "not_after (post_compare e) a b \<longleftrightarrow> post_key e a \<le> post_key e b"
  using assms by (auto simp add: not_after_def post_compare_def post_key_def)

lemma insert_sorted_insort_key:
  assumes "\<forall>y\<in>set ys. not_after c x y \<longleftrightarrow> f x \<le> f y"
  shows "insert_sorted c x ys = insort_key f x ys"
  using assms by (induction ys) auto

lemma js_sort_sort_key:
  assumes "\<forall>x\<in>set xs. \<forall>y\<in>set xs. not_after c x y \<longleftrightarrow> f x \<le> f y"
  shows "js_sort c xs = sort_key f xs"
  using assms
proof (induction xs)
  case Nil
  then show ?case by (simp add: js_sort_def)
next
  case (Cons x xs)
  then have IH: "js_sort c xs = sort_key f xs" by simp
  have "js_sort c (x # xs) = insert_sorted c x (sort_key f xs)"
    using IH by (simp add: js_sort_def)
  also have "\<dots> = insort_key f x (sort_key f xs)"
    using Cons.prems by (intro insert_sorted_insort_key) simp
  finally show ?case by simp
qed

lemma js_sort_posts:
  assumes "\<forall>p\<in>set posts. created e p \<noteq> None"
  shows "js_sort (post_compare e) posts = sort_key (post_key e) posts"
  using assms by (intro js_sort_sort_key) (simp add: not_after_key)

lemma mset_js_sort: "mset (js_sort c xs) = mset xs"
proof -
  have "mset (insert_sorted c x ys) = add_mset x (mset ys)" for x ys
    by (induction ys) auto
  then show ?thesis
    by (induction xs) (simp_all add: js_sort_def)
qed

lemma sorted_split:
  assumes "sorted_wrt R xs" and "\<And>a b. R a b \<Longrightarrow> P b \<Longrightarrow> P a"
  shows "xs = filter P xs @ filter (\<lambda>x. \<not> P x) xs"
  using assms(1)
proof (induction xs)
  case Nil
  then show ?case by simp
next
  case (Cons x xs)
  then have IH: "xs = filter P xs @ filter (\<lambda>x. \<not> P x) xs" and after: "\<forall>y\<in>set xs. R x y"
    by simp_all
  show ?case
  proof (cases "P x")
    case True
    with IH show ?thesis by simp
  next
    case False
    with after assms(2) have "\<forall>y\<in>set xs. \<not> P y" by blast
    then have "filter P xs = []" by (simp add: filter_empty_conv)
    with False IH show ?thesis by simp
  qed
qed

lemma sorted_posts_props:
  assumes dated: "\<forall>p\<in>set posts. created e p \<noteq> None"
  defines "r \<equiv> js_sort (post_compare e) posts"
  shows "r = filter is_pinned r @ filter (\<lambda>p. \<not> is_pinned p) r"
    and "sorted_wrt (newer e) (filter is_pinned r)"
    and "sorted_wrt (newer e) (filter (\<lambda>p. \<not> is_pinned p) r)"
    and "filter (\<lambda>p. is_pinned p = b \<and> created e p = Some t) r =
         filter (\<lambda>p. is_pinned p = b \<and> created e p = Some t) posts"
proof -
  have r: "r = sort_key (post_key e) posts"
    unfolding r_def by (rule js_sort_posts [OF dated])
  then have set_r: "set r = set posts" by simp
  have s: "sorted_wrt (\<lambda>a b. post_key e a \<le> post_key e b) r"
    using sorted_sort_key [of "post_key e" posts] by (simp only: r sorted_map)
  show "r = filter is_pinned r @ filter (\<lambda>p. \<not> is_pinned p) r"
    by (rule sorted_split [OF s]) (auto simp add: post_key_def)
  have rel: "newer e a b"
    if "a \<in> set r" "b \<in> set r" "is_pinned a = is_pinned b" "post_key e a \<le> post_key e b" for a b
  proof -
    from that(1,2) set_r dated have "created e a \<noteq> None" "created e b \<noteq> None"
      by simp_all
    then obtain ta tb where "created e a = Some ta" "created e b = Some tb"
      by blast
    with that(3,4) show ?thesis by (auto simp add: newer_def post_key_def)
  qed
  have "sorted_wrt (\<lambda>a b. post_key e a \<le> post_key e b) (filter is_pinned r)"
    by (rule sorted_wrt_filter [OF s])
  then show "sorted_wrt (newer e) (filter is_pinned r)"
  proof (rule sorted_wrt_mono_rel [rotated])
    fix a b
    assume "a \<in> set (filter is_pinned r)" "b \<in> set (filter is_pinned r)"
      "post_key e a \<le> post_key e b"
    then show "newer e a b" by (intro rel) simp_all
  qed
  have "sorted_wrt (\<lambda>a b. post_key e a \<le> post_key e b) (filter (\<lambda>p. \<not> is_pinned p) r)"
    by (rule sorted_wrt_filter [OF s])
  then show "sorted_wrt (newer e) (filter (\<lambda>p. \<not> is_pinned p) r)"
  proof (rule sorted_wrt_mono_rel [rotated])
    fix a b
    assume "a \<in> set (filter (\<lambda>p. \<not> is_pinned p) r)" "b \<in> set (filter (\<lambda>p. \<not> is_pinned p) r)"
      "post_key e a \<le> post_key e b"
    then show "newer e a b" by (intro rel) simp_all
  qed
  have stable: "filter (\<lambda>p. post_key e p = k) r = filter (\<lambda>p. post_key e p = k) posts" for k
    unfolding r by (rule sort_key_stable)
  have same: "filter (\<lambda>p. is_pinned p = b \<and> created e p = Some t) xs =
      filter (\<lambda>p. post_key e p = (\<not> b, - t)) xs" if "set xs \<subseteq> set posts" for xs
  proof (rule filter_cong [OF refl])
    fix p assume "p \<in> set xs"
    with that dated have "created e p \<noteq> None" by blast
    then obtain tp where "created e p = Some tp" by blast
    then show "(is_pinned p = b \<and> created e p = Some t) = (post_key e p = (\<not> b, - t))"
      by (auto simp add: post_key_def)
  qed
  show "filter (\<lambda>p. is_pinned p = b \<and> created e p = Some t) r =
         filter (\<lambda>p. is_pinned p = b \<and> created e p = Some t) posts"
    using same [of r] same [of posts] stable [of "(\<not> b, - t)"] set_r by simp
qed

lemma getAllPosts_result:
  assumes "readData e st ''posts'' (Doc ''posts'' []) = Inr (Doc ''posts'' posts, st1)"
  shows "getAllPosts e st =
           Inr (js_sort (post_compare e) posts,
                if isVercel e \<and> memoryStore st1 ''posts'' \<noteq> None
                then st1\<lparr>memoryStore := (memoryStore st1)(''posts'' \<mapsto> Doc ''posts'' (js_sort (post_compare e) posts))\<rparr>
                else st1)"
  using assms by (simp add: getAllPosts_def doc_get_def Let_def)

lemma js_sort_three:
  assumes "\<not> is_pinned A" "is_pinned B" "\<not> is_pinned C"
    and "created e A = Some t1" "created e B = Some t0" "created e C = Some t2"
    and "t0 < t1" "t1 < t2"
  shows "js_sort (post_compare e) [A, B, C] = [B, C, A]"
  using assms by (simp add: js_sort_def not_after_def post_compare_def)

lemma sample_times:
  "created (node v) hello = Some 1705314600000" "created (node v) news = Some 1704873600000"
  "created (node v) later = Some 1706745600000" "created (node v) breaking = Some 1705314600000"
proof -
  have "iso_time ''2024-01-15T10:30:00.000Z'' = Some 1705314600000"
    "iso_time ''2024-01-10T08:00:00.000Z'' = Some 1704873600000"
    "iso_time ''2024-02-01T00:00:00.000Z'' = Some 1706745600000"
    by code_simp+
  then show "created (node v) hello = Some 1705314600000" "created (node v) news = Some 1704873600000"
    "created (node v) later = Some 1706745600000" "created (node v) breaking = Some 1705314600000"
    by (simp_all add: created_def js_get_def hello_def news_def later_def breaking_def)
qed

lemma sample_pins: "\<not> is_pinned hello" "is_pinned news" "\<not> is_pinned later" "is_pinned breaking"
  by (simp_all add: is_pinned_def js_get_def hello_def news_def later_def breaking_def)

lemma feed_safe:
  "json_safe (node False) (Doc ''posts'' [hello, news, later])"
  "json_safe (node False) (Doc ''posts'' [news, breaking])"
proof -
  have "json_parse (json_stringify (Doc ''posts'' [hello, news, later])) = Some (Doc ''posts'' [hello, news, later])"
    "json_parse (json_stringify (Doc ''posts'' [news, breaking])) = Some (Doc ''posts'' [news, breaking])"
    by code_simp+
  then show "json_safe (node False) (Doc ''posts'' [hello, news, later])"
    "json_safe (node False) (Doc ''posts'' [news, breaking])"
    by (simp_all add: json_safe_def)
qed

text \<open>
  C5, as amended. Given the stored posts collection, every post with a valid
  \<open>createdAt\<close>: \<open>getAllPosts\<close> returns all the posts (the same multiset), the pinned
  ones before the unpinned ones, and each of the two groups by timestamp descending;
  posts of one group with one timestamp keep their stored relative order. For stored
  \<open>[A, B, C]\<close> with \<open>A\<close> and \<open>C\<close> unpinned, \<open>B\<close> pinned and timestamps \<open>B < A < C\<close> the
  result is \<open>[B, C, A]\<close>.
\<close>

theorem getAllPosts_order:
  assumes read: "readData e st ''posts'' (Doc ''posts'' []) = Inr (Doc ''posts'' posts, st1)"
    and dated: "\<forall>p\<in>set posts. created e p \<noteq> None"
  shows "\<exists>result st'.
           getAllPosts e st = Inr (result, st') \<and>
           mset result = mset posts \<and>
           result = filter is_pinned result @ filter (\<lambda>p. \<not> is_pinned p) result \<and>
           sorted_wrt (newer e) (filter is_pinned result) \<and>
           sorted_wrt (newer e) (filter (\<lambda>p. \<not> is_pinned p) result) \<and>
           (\<forall>b t. filter (\<lambda>p. is_pinned p = b \<and> created e p = Some t) result =
                  filter (\<lambda>p. is_pinned p = b \<and> created e p = Some t) posts) \<and>
           (\<forall>A B C t0 t1 t2.
              posts = [A, B, C] \<and> \<not> is_pinned A \<and> is_pinned B \<and> \<not> is_pinned C \<and>
              created e A = Some t1 \<and> created e B = Some t0 \<and> created e C = Some t2 \<and>
              t0 < t1 \<and> t1 < t2 \<longrightarrow> result = [B, C, A])"
proof -
  let ?r = "js_sort (post_compare e) posts"
  let ?st' = "if isVercel e \<and> memoryStore st1 ''posts'' \<noteq> None
      then st1\<lparr>memoryStore := (memoryStore st1)(''posts'' \<mapsto> Doc ''posts'' ?r)\<rparr> else st1"
  note props = sorted_posts_props [OF dated]
  show ?thesis
  proof (rule exI [of _ ?r], rule exI [of _ ?st'], intro conjI)
    show "getAllPosts e st = Inr (?r, ?st')" by (rule getAllPosts_result [OF read])
    show "mset ?r = mset posts" by (rule mset_js_sort)
    show "?r = filter is_pinned ?r @ filter (\<lambda>p. \<not> is_pinned p) ?r" by (rule props(1))
    show "sorted_wrt (newer e) (filter is_pinned ?r)" by (rule props(2))
    show "sorted_wrt (newer e) (filter (\<lambda>p. \<not> is_pinned p) ?r)" by (rule props(3))
    show "\<forall>b t. filter (\<lambda>p. is_pinned p = b \<and> created e p = Some t) ?r =
                  filter (\<lambda>p. is_pinned p = b \<and> created e p = Some t) posts"
      using props(4) by (intro allI)
    show "\<forall>A B C t0 t1 t2.
              posts = [A, B, C] \<and> \<not> is_pinned A \<and> is_pinned B \<and> \<not> is_pinned C \<and>
              created e A = Some t1 \<and> created e B = Some t0 \<and> created e C = Some t2 \<and>
              t0 < t1 \<and> t1 < t2 \<longrightarrow> ?r = [B, C, A]"
      by (intro allI impI) (simp add: js_sort_three)
  qed
qed

theorem getAllPosts_order_witness:
  "\<exists>st'. getAllPosts (node False) (writeData (node False) fresh ''posts'' (Doc ''posts'' [hello, news, later])) =
     Inr ([news, later, hello], st')"
proof -
  let ?l = "node False"
  let ?s = "writeData ?l fresh ''posts'' (Doc ''posts'' [hello, news, later])"
  have r: "readData ?l ?s ''posts'' (Doc ''posts'' []) = Inr (Doc ''posts'' [hello, news, later], ?s)"
    using feed_safe(1) by (intro stored_read) simp
  have dated: "\<forall>p\<in>set [hello, news, later]. created ?l p \<noteq> None"
    by (simp add: sample_times)
  from getAllPosts_order [OF r dated] obtain result st' where
    res: "getAllPosts ?l ?s = Inr (result, st')"
    and ex: "\<forall>A B C t0 t1 t2.
        [hello, news, later] = [A, B, C] \<and> \<not> is_pinned A \<and> is_pinned B \<and> \<not> is_pinned C \<and>
        created ?l A = Some t1 \<and> created ?l B = Some t0 \<and> created ?l C = Some t2 \<and>
        t0 < t1 \<and> t1 < t2 \<longrightarrow> result = [B, C, A]"
    by blast
  from ex [rule_format, of hello news later 1705314600000 1704873600000 1706745600000]
  have "result = [news, later, hello]"
    by (simp add: sample_times sample_pins)
  with res show ?thesis by blast
qed

text \<open>
  The pinned posts do not keep their stored relative order: the comparator falls through
  to the timestamps when both posts are pinned, so of two pinned posts the later one comes
  first, wherever it was stored.
\<close>

theorem pinned_posts_reordered:
  "getAllPosts (node False) (writeData (node False) fresh ''posts'' (Doc ''posts'' [news, breaking])) =
     Inr ([breaking, news], writeData (node False) fresh ''posts'' (Doc ''posts'' [news, breaking])) \<and>
   is_pinned news \<and> is_pinned breaking \<and>
   filter is_pinned [breaking, news] \<noteq> filter is_pinned [news, breaking]"
proof -
  let ?l = "node False"
  let ?s = "writeData ?l fresh ''posts'' (Doc ''posts'' [news, breaking])"
  have r: "readData ?l ?s ''posts'' (Doc ''posts'' []) = Inr (Doc ''posts'' [news, breaking], ?s)"
    using feed_safe(2) by (intro stored_read) simp
  have "js_sort (post_compare ?l) [news, breaking] = [breaking, news]"
    by (simp add: js_sort_def not_after_def post_compare_def sample_times sample_pins)
  with getAllPosts_result [OF r] have "getAllPosts ?l ?s = Inr ([breaking, news], ?s)"
    by simp
  moreover have "news \<noteq> breaking" by (simp add: news_def breaking_def)
  ultimately show ?thesis by (simp add: sample_pins)
qed

end
